theory Spec2Isabelle
  imports Main "HOL-Library.Word"
begin

unbundle bit_operations_syntax

section \<open>Data model of the PCAN binding (package pcan)\<close>

text \<open>
  The embedding follows \<^verbatim>\<open>src/pcan/pcanbasic.go\<close> (the Windows binding) and the
  declarations of \<^verbatim>\<open>src/pcan/types.go\<close>. The named integer types and the constants
  of the package (\<^verbatim>\<open>TPCANStatus\<close>, \<^verbatim>\<open>PCAN_ERROR_QRCVEMPTY\<close>, ...) are declared in a
  file that is not part of the sources at hand. The integer types are given the widths
  of the vendor interface they mirror; the constants are collected in the record
  \<open>pcan_consts\<close> and every function that mentions one takes that record as its first
  argument, so that every theorem holds whatever their values are.
\<close>

type_synonym TPCANHandle = "16 word"
type_synonym TPCANStatus = "32 word"
type_synonym TPCANParameter = "8 word"
type_synonym TPCANParameterValue = "32 word"
type_synonym TPCANBaudrate = "16 word"
type_synonym TPCANType = "8 word"
type_synonym TPCANMsgID = "32 word"
type_synonym TPCANMessageType = "8 word"

record TPCANMsg =
  ID :: TPCANMsgID
  MsgType :: TPCANMessageType
  DLC :: "8 word"
  Data :: "8 word list"

record TPCANTimestamp =
  Millis :: "32 word"
  MillisOverflow :: "16 word"
  Micros :: "16 word"

record TPCANBus =
  Handle :: TPCANHandle
  Baudrate :: TPCANBaudrate
  HWType :: TPCANType
  IOPort :: "32 word"
  Interrupt :: "16 word"
  recvEvent :: nat

record pcan_consts =
  PCAN_ERROR_OK :: TPCANStatus
  PCAN_ERROR_QRCVEMPTY :: TPCANStatus
  PCAN_ERROR_UNKNOWN :: TPCANStatus
  LENGTH_DATA_CAN_MESSAGE :: nat
  MAX_LENGHT_STRING_BUFFER :: nat
  MAX_TRACE_FILE_SIZE_ACCEPTED :: "32 word"
  TRACE_FILE_SINGLE :: "32 word"
  TRACE_FILE_SEGMENTED :: "32 word"
  TRACE_FILE_DATE :: "32 word"
  TRACE_FILE_TIME :: "32 word"
  TRACE_FILE_OVERWRITE :: "32 word"
  PCAN_TRACE_LOCATION :: TPCANParameter
  PCAN_TRACE_STATUS :: TPCANParameter
  PCAN_TRACE_SIZE :: TPCANParameter
  PCAN_TRACE_CONFIGURE :: TPCANParameter
  PCAN_PARAMETER_OFF :: TPCANParameterValue
  PCAN_PARAMETER_ON :: TPCANParameterValue

text \<open>
  Go's \<^verbatim>\<open>error\<close> values: \<open>None\<close> is \<^verbatim>\<open>nil\<close>. \<open>ErrnoText n\<close> is
  \<^verbatim>\<open>errors.New(errno.Error())\<close> for the error number \<open>n\<close>, \<open>Errno n\<close> a
  \<^verbatim>\<open>syscall.Errno\<close> handed on as it is, \<open>Errorf f v\<close> the value of
  \<^verbatim>\<open>fmt.Errorf(f, v)\<close>.
\<close>

datatype go_error = ErrnoText nat | Errno nat | Errorf string nat

type_synonym error = "go_error option"

subsection \<open>The native layer and the process-wide state\<close>

text \<open>
  What a native call is given: \<open>Val\<close> is an integer converted with \<^verbatim>\<open>uintptr(...)\<close>,
  the other constructors are pointers, written as the contents of the memory they point
  to at the time of the call.
\<close>

datatype arg =
    Val nat
  | PtrMsg TPCANMsg
  | PtrTimestamp TPCANTimestamp
  | PtrU32 "32 word"
  | PtrBytes "8 word list"

text \<open>
  What a native call gives back: the return value \<open>r1\<close>, the error number of
  \<^verbatim>\<open>GetLastError\<close> (\<^verbatim>\<open>Proc.Call\<close> always returns it, also when it is zero), and
  the contents of the message and timestamp buffers after the call (read only by
  \<open>Read\<close>).
\<close>

record reply =
  r1 :: "64 word"
  lastErr :: nat
  omsg :: TPCANMsg
  ots :: TPCANTimestamp

type_synonym proc = string

text \<open>
  The package-level variables of \<^verbatim>\<open>pcanbasic.go\<close> (\<open>None\<close> is a \<^verbatim>\<open>nil\<close> pointer),
  followed by the environment of the process: the log of the native calls made so far
  (\<open>calls\<close>), the native layer's answer to the \<open>n\<close>-th call (\<open>driver\<close>), the value of
  \<^verbatim>\<open>time.Now().UnixNano()\<close> at the \<open>n\<close>-th reading of the clock (\<open>clock\<close>, with
  \<open>nnow\<close> counting the readings), the log of the durations slept, in nanoseconds
  (\<open>sleeps\<close>), the log of the event waits as handle and timeout (\<open>waits\<close>), the return
  value and error number of the \<open>n\<close>-th \<^verbatim>\<open>WaitForSingleObject\<close> system call (\<open>waiter\<close>)
  and the result of releasing the library (\<open>freeLibrary\<close>).
\<close>

record world =
  pcanAPIHandle :: "string option"
  pHandleInitialize :: "proc option"
  pHandleInitializeFD :: "proc option"
  pHandleUninitialize :: "proc option"
  pHandleReset :: "proc option"
  pHandleGetStatus :: "proc option"
  pHandleRead :: "proc option"
  pHandleReadFD :: "proc option"
  pHandleWrite :: "proc option"
  pHandleWriteFD :: "proc option"
  pHandleFilterMessages :: "proc option"
  pHandleGetValue :: "proc option"
  pHandleSetValue :: "proc option"
  pHandleGetErrorText :: "proc option"
  pHandleLookUpChannel :: "proc option"
  apiLoaded :: bool
  hasEvents :: bool
  calls :: "(proc \<times> arg list) list"
  driver :: "nat \<Rightarrow> reply"
  nnow :: nat
  clock :: "nat \<Rightarrow> 64 word"
  sleeps :: "nat list"
  waits :: "(nat \<times> 32 word) list"
  waiter :: "nat \<Rightarrow> 64 word \<times> nat"
  freeLibrary :: error

text \<open>
  A Go function either returns its results in a new state of the world, or panics
  (here always on a \<^verbatim>\<open>nil\<close> pointer) in the state the world had reached.
\<close>

datatype 'a outcome = Return 'a world | Panic world


section \<open>The operations\<close>

subsection \<open>Calls through an entry point\<close>

text \<open>
  \<^verbatim>\<open>(*syscall.Proc).Call\<close>: on a \<^verbatim>\<open>nil\<close> receiver reading the procedure's address
  panics before anything is called; otherwise the call is logged and answered by the
  native layer.
\<close>

definition Call :: "proc option \<Rightarrow> arg list \<Rightarrow> world \<Rightarrow> reply outcome" where
  "Call p a w =
     (case p of
        None \<Rightarrow> Panic w
      | Some f \<Rightarrow> Return (driver w (length (calls w))) (w\<lparr>calls := calls w @ [(f, a)]\<rparr>))"

definition ERROR_INSUFFICIENT_BUFFER :: nat where
  "ERROR_INSUFFICIENT_BUFFER = 122"

text \<open>\<^verbatim>\<open>syscallErr\<close>; the warning it prints for the suppressed error number is not modelled.\<close>

definition syscallErr :: "nat option \<Rightarrow> error" where
  "syscallErr err =
     (case err of
        None \<Rightarrow> None
      | Some errno \<Rightarrow>
          if errno \<noteq> 0 then
            (if errno = ERROR_INSUFFICIENT_BUFFER then None else Some (ErrnoText errno))
          else None)"

definition TPCANStatus :: "64 word \<Rightarrow> TPCANStatus" where
  "TPCANStatus r = ucast r"

text \<open>
  The common ending \<^verbatim>\<open>return TPCANStatus(ret), syscallErr(errno)\<close> of the forwarding
  methods.
\<close>

definition call_status :: "reply outcome \<Rightarrow> (TPCANStatus \<times> error) outcome" where
  "call_status oc =
     (case oc of
        Panic w \<Rightarrow> Panic w
      | Return r w \<Rightarrow> Return (TPCANStatus (r1 r), syscallErr (Some (lastErr r))) w)"

subsection \<open>Unloading\<close>

definition UnloadAPI :: "world \<Rightarrow> error outcome" where
  "UnloadAPI w =
     (let w1 = w\<lparr>pHandleInitialize := None, pHandleInitializeFD := None,
                  pHandleUninitialize := None, pHandleReset := None,
                  pHandleGetStatus := None, pHandleRead := None, pHandleReadFD := None,
                  pHandleWrite := None, pHandleWriteFD := None,
                  pHandleFilterMessages := None, pHandleGetValue := None,
                  pHandleSetValue := None, pHandleGetErrorText := None,
                  pHandleLookUpChannel := None, apiLoaded := False\<rparr>
      in case pcanAPIHandle w1 of
           None \<Rightarrow> Panic w1
         | Some d \<Rightarrow> Return (freeLibrary w1) w1)"

subsection \<open>Methods of a channel that forward one call\<close>

definition Uninitialize :: "TPCANBus \<Rightarrow> world \<Rightarrow> (TPCANStatus \<times> error) outcome" where
  "Uninitialize p w = call_status (Call (pHandleUninitialize w) [Val (unat (Handle p))] w)"

definition Reset :: "TPCANBus \<Rightarrow> world \<Rightarrow> (TPCANStatus \<times> error) outcome" where
  "Reset p w = call_status (Call (pHandleReset w) [Val (unat (Handle p))] w)"

definition GetStatus :: "TPCANBus \<Rightarrow> world \<Rightarrow> (TPCANStatus \<times> error) outcome" where
  "GetStatus p w = call_status (Call (pHandleGetStatus w) [Val (unat (Handle p))] w)"

text \<open>A \<^verbatim>\<open>nil\<close> message pointer is passed on as the address zero.\<close>

definition Write :: "TPCANBus \<Rightarrow> TPCANMsg option \<Rightarrow> world \<Rightarrow> (TPCANStatus \<times> error) outcome" where
  "Write p msg w =
     call_status (Call (pHandleWrite w)
       [Val (unat (Handle p)), (case msg of None \<Rightarrow> Val 0 | Some m \<Rightarrow> PtrMsg m)] w)"

text \<open>
  \<^verbatim>\<open>GetValue\<close> and \<^verbatim>\<open>SetValue\<close> take the buffer as the memory it points to; what the
  driver leaves in the buffer of \<^verbatim>\<open>GetValue\<close> is not modelled.
\<close>

definition GetValue ::
  "TPCANBus \<Rightarrow> TPCANParameter \<Rightarrow> arg \<Rightarrow> 32 word \<Rightarrow> world \<Rightarrow> (TPCANStatus \<times> error) outcome" where
  "GetValue p param buffer bufferSize w =
     call_status (Call (pHandleGetValue w)
       [Val (unat (Handle p)), Val (unat param), buffer, Val (unat bufferSize)] w)"

definition SetValue ::
  "TPCANBus \<Rightarrow> TPCANParameter \<Rightarrow> arg \<Rightarrow> 32 word \<Rightarrow> world \<Rightarrow> (TPCANStatus \<times> error) outcome" where
  "SetValue p param buffer bufferSize w =
     call_status (Call (pHandleSetValue w)
       [Val (unat (Handle p)), Val (unat param), buffer, Val (unat bufferSize)] w)"

definition SetParameter ::
  "TPCANBus \<Rightarrow> TPCANParameter \<Rightarrow> TPCANParameterValue \<Rightarrow> world \<Rightarrow> (TPCANStatus \<times> error) outcome" where
  "SetParameter p param val w = SetValue p param (PtrU32 val) 4 w"

definition StopTrace :: "pcan_consts \<Rightarrow> TPCANBus \<Rightarrow> world \<Rightarrow> (TPCANStatus \<times> error) outcome" where
  "StopTrace c p w = SetParameter p (PCAN_TRACE_STATUS c) (PCAN_PARAMETER_OFF c) w"

subsection \<open>Read\<close>

text \<open>The zero values of the two variables whose addresses \<^verbatim>\<open>Read\<close> passes to the driver.\<close>

definition zero_msg :: "pcan_consts \<Rightarrow> TPCANMsg" where
  "zero_msg c = \<lparr>ID = 0, MsgType = 0, DLC = 0, Data = replicate (LENGTH_DATA_CAN_MESSAGE c) 0\<rparr>"

definition zero_timestamp :: TPCANTimestamp where
  "zero_timestamp = \<lparr>Millis = 0, MillisOverflow = 0, Micros = 0\<rparr>"

type_synonym read_result = "TPCANStatus \<times> TPCANMsg option \<times> TPCANTimestamp option \<times> error"

definition Read :: "pcan_consts \<Rightarrow> TPCANBus \<Rightarrow> world \<Rightarrow> read_result outcome" where
  "Read c p w =
     (case Call (pHandleRead w)
             [Val (unat (Handle p)), PtrMsg (zero_msg c), PtrTimestamp zero_timestamp] w of
        Panic w' \<Rightarrow> Panic w'
      | Return r w' \<Rightarrow>
          if TPCANStatus (r1 r) = PCAN_ERROR_QRCVEMPTY c then
            Return (TPCANStatus (r1 r), None, None, syscallErr (Some (lastErr r))) w'
          else
            Return (TPCANStatus (r1 r), Some (omsg r), Some (ots r), syscallErr (Some (lastErr r))) w')"


subsection \<open>Clock, sleep and event wait\<close>

text \<open>
  A parameter of Go's type \<^verbatim>\<open>int\<close> is an \<open>int\<close> (\<^verbatim>\<open>syscall.INFINITE\<close> does not
  fit a 32-bit \<^verbatim>\<open>int\<close>, so the package compiles for 64-bit targets only, where the
  conversions between \<^verbatim>\<open>int\<close> and \<^verbatim>\<open>int64\<close> change nothing). \<open>int64\<close> is the
  wrap-around of a 64-bit sum; \<^verbatim>\<open>/\<close> truncates towards zero.
\<close>

definition int64 :: "int \<Rightarrow> int" where
  "int64 x = sint (word_of_int x :: 64 word)"

definition go_div :: "int \<Rightarrow> int \<Rightarrow> int" where
  "go_div a b = sgn a * sgn b * (\<bar>a\<bar> div \<bar>b\<bar>)"

definition time_Now :: "world \<Rightarrow> 64 word \<times> world" where
  "time_Now w = (clock w (nnow w), w\<lparr>nnow := Suc (nnow w)\<rparr>)"

definition Millisecond :: int where
  "Millisecond = 1000000"

definition Microsecond :: nat where
  "Microsecond = 1000"

text \<open>\<^verbatim>\<open>time.Now().UnixNano() / int64(time.Millisecond)\<close>\<close>

definition now_ms :: "world \<Rightarrow> int \<times> world" where
  "now_ms w = (let (t, w') = time_Now w in (go_div (sint t) (int64 Millisecond), w'))"

definition time_Sleep :: "nat \<Rightarrow> world \<Rightarrow> world" where
  "time_Sleep d w = w\<lparr>sleeps := sleeps w @ [d]\<rparr>"

definition INFINITE :: int where
  "INFINITE = 0xffffffff"

definition WAIT_OBJECT_0 :: "32 word" where
  "WAIT_OBJECT_0 = 0x00000000"

definition WAIT_TIMEOUT :: "32 word" where
  "WAIT_TIMEOUT = 258"

definition WAIT_FAILED :: "32 word" where
  "WAIT_FAILED = 0xFFFFFFFF"

text \<open>
  \<^verbatim>\<open>syscall.WaitForSingleObject\<close> of the Go library: the event is the system call's
  return value, and an error is returned only with the event \<^verbatim>\<open>0xffffffff\<close> (an
  error number zero is then reported as \<^verbatim>\<open>EINVAL\<close>, written \<open>Errno 0\<close> here).
\<close>

definition WaitForSingleObject :: "nat \<Rightarrow> 32 word \<Rightarrow> world \<Rightarrow> (32 word \<times> error) \<times> world" where
  "WaitForSingleObject handle waitMilliseconds w =
     (let (r0, e1) = waiter w (length (waits w));
          event = (ucast r0 :: 32 word);
          err = (if event = 0xffffffff then Some (Errno e1) else None)
      in ((event, err), w\<lparr>waits := waits w @ [(handle, waitMilliseconds)]\<rparr>))"

subsection \<open>ReadWithTimeout\<close>

text \<open>
  The loop \<^verbatim>\<open>for msg == nil { ... }\<close> with the \<^verbatim>\<open>return\<close> that follows it. Its state
  is the four variables \<^verbatim>\<open>ret, msg, timeStamp, err\<close>; \<open>None\<close> as the value of the
  function is a loop that never ends.
\<close>

partial_function (option) ReadWithTimeout_loop ::
  "pcan_consts \<Rightarrow> TPCANBus \<Rightarrow> 32 word \<Rightarrow> int \<Rightarrow> read_result \<Rightarrow> world \<Rightarrow> read_result outcome option"
where
  "ReadWithTimeout_loop c p timeoutU32 endTime vars w =
     (case vars of (ret0, msg0, timeStamp0, err0) \<Rightarrow>
        if msg0 = None then
          (case Read c p w of
             Panic w1 \<Rightarrow> Some (Panic w1)
           | Return (ret, msg, timeStamp, err) w1 \<Rightarrow>
               if ret = PCAN_ERROR_QRCVEMPTY c then
                 (if hasEvents w1 then
                    (case WaitForSingleObject (recvEvent p) timeoutU32 w1 of
                       ((val, errWait), w2) \<Rightarrow>
                         if val = WAIT_OBJECT_0 then
                           ReadWithTimeout_loop c p timeoutU32 endTime (ret, msg, timeStamp, err) w2
                         else if val = WAIT_FAILED then Some (Return (ret, None, None, errWait) w2)
                         else if val = WAIT_TIMEOUT then Some (Return (ret, None, None, errWait) w2)
                         else Some (Return (ret, msg, timeStamp, errWait) w2))
                  else
                    (case now_ms w1 of
                       (now, w2) \<Rightarrow>
                         if now > endTime then Some (Return (ret, None, None, err) w2)
                         else ReadWithTimeout_loop c p timeoutU32 endTime (ret, msg, timeStamp, err)
                                (time_Sleep (250 * Microsecond) w2)))
               else ReadWithTimeout_loop c p timeoutU32 endTime (ret, msg, timeStamp, err) w1)
        else Some (Return (ret0, msg0, timeStamp0, err0) w))"

definition ReadWithTimeout ::
  "pcan_consts \<Rightarrow> TPCANBus \<Rightarrow> int \<Rightarrow> world \<Rightarrow> read_result outcome option" where
  "ReadWithTimeout c p timeout w =
     (let timeout = (if timeout < 0 then INFINITE else timeout);
          timeoutU32 = (word_of_int timeout :: 32 word)
      in case now_ms w of
           (startTime, w1) \<Rightarrow>
             let endTime = int64 (startTime + timeout)
             in ReadWithTimeout_loop c p timeoutU32 endTime
                  (PCAN_ERROR_UNKNOWN c, None, None, None) w1)"

subsection \<open>ReadFullBuffer\<close>

text \<open>
  The loop \<^verbatim>\<open>for { ... }\<close>; its state is the two slices. Dereferencing a \<^verbatim>\<open>nil\<close>
  message or timestamp would panic.
\<close>

partial_function (option) ReadFullBuffer_loop ::
  "pcan_consts \<Rightarrow> TPCANBus \<Rightarrow> int \<Rightarrow> TPCANMsg list \<Rightarrow> TPCANTimestamp list \<Rightarrow> world
     \<Rightarrow> (TPCANMsg list \<times> TPCANTimestamp list \<times> error) outcome option"
where
  "ReadFullBuffer_loop c p limit msgs timestamps w =
     (case Read c p w of
        Panic w1 \<Rightarrow> Some (Panic w1)
      | Return (ret, msg, timeStamp, err) w1 \<Rightarrow>
          if ret = PCAN_ERROR_QRCVEMPTY c then Some (Return (msgs, timestamps, err) w1)
          else
            (case msg of
               None \<Rightarrow> Some (Panic w1)
             | Some m \<Rightarrow>
                 (case timeStamp of
                    None \<Rightarrow> Some (Panic w1)
                  | Some t \<Rightarrow>
                      if limit \<noteq> 0 \<and> int (length (msgs @ [m])) \<ge> limit then
                        Some (Return (msgs @ [m], timestamps @ [t], err) w1)
                      else ReadFullBuffer_loop c p limit (msgs @ [m]) (timestamps @ [t]) w1)))"

definition ReadFullBuffer ::
  "pcan_consts \<Rightarrow> TPCANBus \<Rightarrow> int \<Rightarrow> world
     \<Rightarrow> (TPCANMsg list \<times> TPCANTimestamp list \<times> error) outcome option" where
  "ReadFullBuffer c p limit w = ReadFullBuffer_loop c p limit [] [] w"


subsection \<open>StartTrace\<close>

text \<open>
  \<^verbatim>\<open>for i := range filePath\<close> visits the index of the first byte of every UTF-8
  sequence of the string, a byte that does not start a well-formed sequence counting as
  a sequence of its own. \<open>rune_width\<close> is the length of the sequence at the head of
  the bytes given (the loop never asks for it at the end of the string).
\<close>

definition first_byte :: "nat \<Rightarrow> (nat \<times> nat \<times> nat) option" where
  "first_byte b =
     (if b < 0xC2 then None
      else if b \<le> 0xDF then Some (2, 0x80, 0xBF)
      else if b = 0xE0 then Some (3, 0xA0, 0xBF)
      else if b \<le> 0xEC then Some (3, 0x80, 0xBF)
      else if b = 0xED then Some (3, 0x80, 0x9F)
      else if b \<le> 0xEF then Some (3, 0x80, 0xBF)
      else if b = 0xF0 then Some (4, 0x90, 0xBF)
      else if b \<le> 0xF3 then Some (4, 0x80, 0xBF)
      else if b = 0xF4 then Some (4, 0x80, 0x8F)
      else None)"

definition rune_width :: "nat list \<Rightarrow> nat" where
  "rune_width s =
     (case s of
        [] \<Rightarrow> 1
      | b # _ \<Rightarrow>
          (case first_byte b of
             None \<Rightarrow> 1
           | Some (sz, lo, hi) \<Rightarrow>
               if length s < sz then 1
               else if s ! 1 < lo \<or> hi < s ! 1 then 1
               else if sz \<le> 2 then 2
               else if s ! 2 < 0x80 \<or> 0xBF < s ! 2 then 1
               else if sz \<le> 3 then 3
               else if s ! 3 < 0x80 \<or> 0xBF < s ! 3 then 1
               else 4))"

function range_string :: "nat list \<Rightarrow> nat \<Rightarrow> nat list" where
  "range_string s i =
     (if i < length s then i # range_string s (i + rune_width (drop i s)) else [])"
  by pat_completeness auto
termination
proof (relation "measure (\<lambda>(s, i). length s - i)")
  show "wf (measure (\<lambda>(s, i). length s - i))"
    by simp
next
  fix s :: "nat list" and i :: nat
  assume "i < length s"
  moreover have "0 < rune_width (drop i s)"
    by (auto simp: rune_width_def split: list.splits option.splits)
  ultimately show "((s, i + rune_width (drop i s)), (s, i)) \<in> measure (\<lambda>(s, i). length s - i)"
    by simp
qed

declare range_string.simps [simp del]

text \<open>
  The second half of \<^verbatim>\<open>StartTrace\<close>, from the comment
  \<^verbatim>\<open>// configure trace file path\<close> on.
\<close>

definition StartTrace_path ::
  "pcan_consts \<Rightarrow> TPCANBus \<Rightarrow> string \<Rightarrow> world \<Rightarrow> (TPCANStatus \<times> error) outcome" where
  "StartTrace_path c p filePath w =
     (if length filePath > MAX_LENGHT_STRING_BUFFER c then
        Return (PCAN_ERROR_UNKNOWN c,
                Some (Errorf ''filepath exceeds max length of %v'' (MAX_LENGHT_STRING_BUFFER c))) w
      else
        let buffer = fold (\<lambda>i b. b[i := of_char (filePath ! i)])
                       (range_string (map of_char filePath) 0)
                       (replicate (MAX_LENGHT_STRING_BUFFER c) (0 :: 8 word))
        in case SetValue p (PCAN_TRACE_LOCATION c) (PtrBytes buffer)
                  (of_nat (MAX_LENGHT_STRING_BUFFER c)) w of
             Panic w1 \<Rightarrow> Panic w1
           | Return (state, err) w1 \<Rightarrow>
               if err \<noteq> None \<or> state \<noteq> PCAN_ERROR_OK c then Return (state, err) w1
               else SetParameter p (PCAN_TRACE_STATUS c) (PCAN_PARAMETER_ON c) w1)"

definition StartTrace ::
  "pcan_consts \<Rightarrow> TPCANBus \<Rightarrow> string \<Rightarrow> 32 word \<Rightarrow> world \<Rightarrow> (TPCANStatus \<times> error) outcome" where
  "StartTrace c p filePath maxFileSize w =
     (if maxFileSize > MAX_TRACE_FILE_SIZE_ACCEPTED c then
        Return (PCAN_ERROR_UNKNOWN c,
                Some (Errorf ''maximum size of a trace file is %v MB''
                        (unat (MAX_TRACE_FILE_SIZE_ACCEPTED c)))) w
      else
        let cfg = TRACE_FILE_DATE c OR TRACE_FILE_TIME c OR TRACE_FILE_OVERWRITE c;
            cfg = (if maxFileSize > 0 then cfg OR TRACE_FILE_SEGMENTED c
                   else cfg OR TRACE_FILE_SINGLE c)
        in case SetParameter p (PCAN_TRACE_CONFIGURE c) cfg w of
             Panic w1 \<Rightarrow> Panic w1
           | Return (state, err) w1 \<Rightarrow>
               if err \<noteq> None \<or> state \<noteq> PCAN_ERROR_OK c then Return (state, err) w1
               else if maxFileSize > 0 then
                 (case SetValue p (PCAN_TRACE_SIZE c) (PtrU32 maxFileSize) 4 w1 of
                    Panic w2 \<Rightarrow> Panic w2
                  | Return (state', err') w2 \<Rightarrow>
                      if err' \<noteq> None \<or> state' \<noteq> PCAN_ERROR_OK c then Return (state', err') w2
                      else StartTrace_path c p filePath w2)
               else StartTrace_path c p filePath w1)"


section \<open>Notions used in the statements\<close>

text \<open>
  The arguments \<^verbatim>\<open>Read\<close> passes to the native layer, and what the native layer answers
  to its \<open>i\<close>-th call as the methods see it: the status, the platform error, and the
  clock reading in milliseconds.
\<close>

definition read_call :: "pcan_consts \<Rightarrow> TPCANBus \<Rightarrow> arg list" where
  "read_call c p = [Val (unat (Handle p)), PtrMsg (zero_msg c), PtrTimestamp zero_timestamp]"

definition status_at :: "world \<Rightarrow> nat \<Rightarrow> TPCANStatus" where
  "status_at w i = TPCANStatus (r1 (driver w i))"

definition err_at :: "world \<Rightarrow> nat \<Rightarrow> error" where
  "err_at w i = syscallErr (Some (lastErr (driver w i)))"

definition clock_ms :: "world \<Rightarrow> nat \<Rightarrow> int" where
  "clock_ms w i = go_div (sint (clock w i)) (int64 Millisecond)"

text \<open>
  The state of the world in which a call ends, and what it returns (\<open>None\<close> when it
  panics).
\<close>

fun world_of :: "'a outcome \<Rightarrow> world" where
  "world_of (Return r w) = w"
| "world_of (Panic w) = w"

fun result_of :: "'a outcome \<Rightarrow> 'a option" where
  "result_of (Return r w) = Some r"
| "result_of (Panic w) = None"

text \<open>The world once \<^verbatim>\<open>UnloadAPI\<close> has run.\<close>

definition after_unload :: "world \<Rightarrow> world" where
  "after_unload w = world_of (UnloadAPI w)"

text \<open>
  The timeout \<^verbatim>\<open>ReadWithTimeout\<close> works with, and the deadline it computes from the
  first clock reading of a call made in the world \<open>w\<close>.
\<close>

definition effective_timeout :: "int \<Rightarrow> int" where
  "effective_timeout timeout = (if timeout < 0 then INFINITE else timeout)"

definition deadline :: "world \<Rightarrow> int \<Rightarrow> int" where
  "deadline w timeout = int64 (clock_ms w (nnow w) + effective_timeout timeout)"

text \<open>
  Round \<open>i\<close> of a call of \<^verbatim>\<open>ReadWithTimeout\<close> made in the world \<open>w\<close> goes on
  waiting: its read reports an empty queue and, with events, the wait is signalled,
  without events, the clock read after it has not passed the deadline.
\<close>

definition keeps_waiting :: "pcan_consts \<Rightarrow> world \<Rightarrow> int \<Rightarrow> nat \<Rightarrow> bool" where
  "keeps_waiting c w timeout i =
     (status_at w (length (calls w) + i) = PCAN_ERROR_QRCVEMPTY c \<and>
      (if hasEvents w then (ucast (fst (waiter w (length (waits w) + i))) :: 32 word) = WAIT_OBJECT_0
       else clock_ms w (Suc (nnow w) + i) \<le> deadline w timeout))"

text \<open>
  The arguments \<^verbatim>\<open>SetValue\<close> passes to the native layer, the trace configuration
  \<^verbatim>\<open>StartTrace\<close> computes, and a call of the native layer that reports neither a
  platform error nor a status other than \<^verbatim>\<open>PCAN_ERROR_OK\<close>.
\<close>

definition set_value_call :: "TPCANBus \<Rightarrow> TPCANParameter \<Rightarrow> arg \<Rightarrow> 32 word \<Rightarrow> arg list" where
  "set_value_call p param buffer bufferSize =
     [Val (unat (Handle p)), Val (unat param), buffer, Val (unat bufferSize)]"

definition trace_configuration :: "pcan_consts \<Rightarrow> 32 word \<Rightarrow> 32 word" where
  "trace_configuration c maxFileSize =
     (let cfg = TRACE_FILE_DATE c OR TRACE_FILE_TIME c OR TRACE_FILE_OVERWRITE c
      in if maxFileSize > 0 then cfg OR TRACE_FILE_SEGMENTED c else cfg OR TRACE_FILE_SINGLE c)"

definition succeeded :: "pcan_consts \<Rightarrow> world \<Rightarrow> nat \<Rightarrow> bool" where
  "succeeded c w i = (err_at w i = None \<and> status_at w i = PCAN_ERROR_OK c)"

text \<open>The messages and timestamps of the next \<open>k\<close> answers of the native layer.\<close>

definition queued_msgs :: "world \<Rightarrow> nat \<Rightarrow> TPCANMsg list" where
  "queued_msgs w k = map (\<lambda>i. omsg (driver w (length (calls w) + i))) [0..<k]"

definition queued_timestamps :: "world \<Rightarrow> nat \<Rightarrow> TPCANTimestamp list" where
  "queued_timestamps w k = map (\<lambda>i. ots (driver w (length (calls w) + i))) [0..<k]"

subsection \<open>A concrete setting\<close>

text \<open>
  The values of the vendor's header for the constants, a channel, and a world in which
  the library is loaded, no event is in use, nothing has been called yet, the clock
  advances by one millisecond from one reading to the next, and the native layer
  answers as the argument says.
\<close>

definition pcan_basic :: pcan_consts where
  "pcan_basic =
     \<lparr>PCAN_ERROR_OK = 0, PCAN_ERROR_QRCVEMPTY = 0x20, PCAN_ERROR_UNKNOWN = 0x10000,
      LENGTH_DATA_CAN_MESSAGE = 8, MAX_LENGHT_STRING_BUFFER = 256,
      MAX_TRACE_FILE_SIZE_ACCEPTED = 100,
      TRACE_FILE_SINGLE = 0x00, TRACE_FILE_SEGMENTED = 0x01, TRACE_FILE_DATE = 0x02,
      TRACE_FILE_TIME = 0x04, TRACE_FILE_OVERWRITE = 0x80,
      PCAN_TRACE_LOCATION = 0x13, PCAN_TRACE_STATUS = 0x14, PCAN_TRACE_SIZE = 0x15,
      PCAN_TRACE_CONFIGURE = 0x16, PCAN_PARAMETER_OFF = 0, PCAN_PARAMETER_ON = 1\<rparr>"

definition usb1 :: TPCANBus where
  "usb1 = \<lparr>Handle = 0x51, Baudrate = 0x1C, HWType = 0, IOPort = 0, Interrupt = 0, recvEvent = 0\<rparr>"

definition loaded :: "(nat \<Rightarrow> reply) \<Rightarrow> world" where
  "loaded d =
     \<lparr>pcanAPIHandle = Some ''PCANBasic.dll'',
      pHandleInitialize = Some ''CAN_Initialize'',
      pHandleInitializeFD = Some ''CAN_InitializeFD'',
      pHandleUninitialize = Some ''CAN_Uninitialize'',
      pHandleReset = Some ''CAN_Reset'',
      pHandleGetStatus = Some ''CAN_GetStatus'',
      pHandleRead = Some ''CAN_Read'',
      pHandleReadFD = Some ''CAN_ReadFD'',
      pHandleWrite = Some ''CAN_Write'',
      pHandleWriteFD = Some ''CAN_WriteFD'',
      pHandleFilterMessages = Some ''CAN_FilterMessages'',
      pHandleGetValue = Some ''CAN_GetValue'',
      pHandleSetValue = Some ''CAN_SetValue'',
      pHandleGetErrorText = Some ''CAN_GetErrorText'',
      pHandleLookUpChannel = Some ''CAN_LookUpChannel'',
      apiLoaded = True,
      hasEvents = False,
      calls = [],
      driver = d,
      nnow = 0,
      clock = (\<lambda>n. of_nat n * 1000000),
      sleeps = [],
      waits = [],
      waiter = (\<lambda>n. (258, 0)),
      freeLibrary = None\<rparr>"

text \<open>
  Answers of the native layer: a frame with the identifier \<open>i\<close> and the status given,
  and an empty queue.
\<close>

definition frame :: "nat \<Rightarrow> TPCANMsg" where
  "frame i = \<lparr>ID = of_nat i, MsgType = 0, DLC = 8, Data = [1, 2, 3, 4, 5, 6, 7, 8]\<rparr>"

definition stamp :: "nat \<Rightarrow> TPCANTimestamp" where
  "stamp i = \<lparr>Millis = of_nat i, MillisOverflow = 0, Micros = 0\<rparr>"

definition answer :: "64 word \<Rightarrow> nat \<Rightarrow> nat \<Rightarrow> reply" where
  "answer st e i = \<lparr>r1 = st, lastErr = e, omsg = frame i, ots = stamp i\<rparr>"

definition no_frame :: "nat \<Rightarrow> reply" where
  "no_frame e =
     \<lparr>r1 = 0x20, lastErr = e, omsg = zero_msg pcan_basic, ots = zero_timestamp\<rparr>"

definition frames_after :: "nat \<Rightarrow> nat \<Rightarrow> reply" where
  "frames_after n i = (if i < n then no_frame 0 else answer 0 0 i)"

definition always :: "reply \<Rightarrow> nat \<Rightarrow> reply" where
  "always r i = r"

text \<open>
  A queue that holds \<open>k\<close> frames and is empty afterwards, and a native layer that
  answers every call with a frame and the status \<^verbatim>\<open>PCAN_ERROR_ILLHW\<close> of the vendor's
  header.
\<close>

definition queue_of :: "nat \<Rightarrow> nat \<Rightarrow> reply" where
  "queue_of k i = (if i < k then answer 0 0 i else no_frame 0)"

definition hardware_fault :: "nat \<Rightarrow> reply" where
  "hardware_fault i = answer 0x1400 0 i"

text \<open>The same world with a clock that advances by \<open>2 ^ 32\<close> milliseconds per reading.\<close>

definition slow_clock :: "world \<Rightarrow> world" where
  "slow_clock w = w\<lparr>clock := (\<lambda>n. of_nat n * 4294967296000000)\<rparr>"


section \<open>Properties\<close>

subsection \<open>Evaluation in the concrete setting\<close>

lemma all_less_2: "(\<forall>i<2. P i) \<longleftrightarrow> P 0 \<and> P (Suc 0)"
  by (auto simp: numeral_2_eq_2 less_Suc_eq)

lemmas evals = keeps_waiting_def status_at_def err_at_def loaded_def no_frame_def answer_def
  TPCANStatus_def pcan_basic_def clock_ms_def deadline_def effective_timeout_def go_div_def
  int64_def Millisecond_def syscallErr_def WAIT_OBJECT_0_def ERROR_INSUFFICIENT_BUFFER_def

lemma loaded_sel [simp]:
  "pHandleRead (loaded d) = Some ''CAN_Read''"
  "pHandleSetValue (loaded d) = Some ''CAN_SetValue''"
  "hasEvents (loaded d) = False" "calls (loaded d) = []" "nnow (loaded d) = 0"
  "sleeps (loaded d) = []" "waits (loaded d) = []" "driver (loaded d) = d"
  by (simp_all add: loaded_def)

lemma slow_sel [simp]:
  "pHandleRead (slow_clock w) = pHandleRead w"
  "hasEvents (slow_clock w) = hasEvents w" "calls (slow_clock w) = calls w"
  "nnow (slow_clock w) = nnow w"
  "sleeps (slow_clock w) = sleeps w" "waits (slow_clock w) = waits w"
  "driver (slow_clock w) = driver w"
  by (simp_all add: slow_clock_def)

lemma loaded_clock:
  "clock_ms (loaded d) 0 = 0" "clock_ms (loaded d) (Suc 0) = 1"
  "clock_ms (loaded d) (Suc (Suc 0)) = 2" "clock_ms (loaded d) (Suc (Suc (Suc 0))) = 3"
  "clock_ms (loaded d) 1 = 1" "clock_ms (loaded d) 2 = 2" "clock_ms (loaded d) 3 = 3"
  by (simp_all add: clock_ms_def loaded_def go_div_def int64_def Millisecond_def)

lemma slow_clock_ms:
  "clock_ms (slow_clock w) 0 = 0" "clock_ms (slow_clock w) (Suc 0) = 4294967296"
  "clock_ms (slow_clock w) 1 = 4294967296"
  by (simp_all add: clock_ms_def slow_clock_def go_div_def int64_def Millisecond_def)

lemma driver_evals:
  "status_at w i = TPCANStatus (r1 (driver w i))"
  "err_at w i = syscallErr (Some (lastErr (driver w i)))"
  by (simp_all add: status_at_def err_at_def)

lemmas stub_evals = driver_evals TPCANStatus_def syscallErr_def ERROR_INSUFFICIENT_BUFFER_def
  frames_after_def always_def no_frame_def answer_def pcan_basic_def keeps_waiting_def
  deadline_def effective_timeout_def int64_def INFINITE_def loaded_clock slow_clock_ms

lemma queue_sel [simp]:
  "status_at (loaded (queue_of k)) i = (if i < k then 0 else 0x20)"
  "err_at (loaded (queue_of k)) i = None"
  "omsg (queue_of k i) = (if i < k then frame i else zero_msg pcan_basic)"
  "ots (queue_of k i) = (if i < k then stamp i else zero_timestamp)"
  by (simp_all add: queue_of_def stub_evals)

lemma upt_evals:
  "[0..<2] = [0, 1]" "[0..<3] = [0, 1, 2]" "[0..<5] = [0, 1, 2, 3, 4]"
  by (simp_all add: upt_rec)

subsection \<open>One read, one round of the wait loop\<close>

lemma Read_empty:
  assumes "pHandleRead w = Some f" and "status_at w (length (calls w)) = PCAN_ERROR_QRCVEMPTY c"
  shows "Read c p w = Return (PCAN_ERROR_QRCVEMPTY c, None, None, err_at w (length (calls w)))
                        (w\<lparr>calls := calls w @ [(f, read_call c p)]\<rparr>)"
  using assms by (simp add: Read_def Call_def status_at_def err_at_def read_call_def)

lemma Read_frame:
  assumes "pHandleRead w = Some f" and "status_at w (length (calls w)) \<noteq> PCAN_ERROR_QRCVEMPTY c"
  shows "Read c p w = Return (status_at w (length (calls w)), Some (omsg (driver w (length (calls w)))),
                          Some (ots (driver w (length (calls w)))), err_at w (length (calls w)))
                        (w\<lparr>calls := calls w @ [(f, read_call c p)]\<rparr>)"
  using assms by (simp add: Read_def Call_def status_at_def err_at_def read_call_def)

lemma loop_done:
  "ReadWithTimeout_loop c p tu endTime (r, Some m, t, e) w = Some (Return (r, Some m, t, e) w)"
  by (subst ReadWithTimeout_loop.simps) simp

lemma loop_frame:
  assumes "pHandleRead w = Some f" and "status_at w (length (calls w)) \<noteq> PCAN_ERROR_QRCVEMPTY c"
  shows "ReadWithTimeout_loop c p tu endTime (r, None, t, e) w =
           Some (Return (status_at w (length (calls w)), Some (omsg (driver w (length (calls w)))),
                          Some (ots (driver w (length (calls w)))), err_at w (length (calls w)))
                        (w\<lparr>calls := calls w @ [(f, read_call c p)]\<rparr>))"
  using assms(2)
  by (subst ReadWithTimeout_loop.simps) (simp add: Read_frame [OF assms] loop_done)

lemma loop_poll_step:
  assumes "pHandleRead w = Some f" and "status_at w (length (calls w)) = PCAN_ERROR_QRCVEMPTY c"
    and "\<not> hasEvents w"
  shows "ReadWithTimeout_loop c p tu endTime (r, None, t, e) w =
           (if clock_ms w (nnow w) > endTime then
              Some (Return (PCAN_ERROR_QRCVEMPTY c, None, None, err_at w (length (calls w)))
                     (w\<lparr>calls := calls w @ [(f, read_call c p)], nnow := Suc (nnow w)\<rparr>))
            else ReadWithTimeout_loop c p tu endTime
                   (PCAN_ERROR_QRCVEMPTY c, None, None, err_at w (length (calls w)))
                   (w\<lparr>calls := calls w @ [(f, read_call c p)], nnow := Suc (nnow w),
                      sleeps := sleeps w @ [250000]\<rparr>))"
  using assms(3)
  by (subst ReadWithTimeout_loop.simps)
     (simp add: Read_empty [OF assms(1,2)] now_ms_def time_Now_def time_Sleep_def clock_ms_def
        Microsecond_def)

lemma loop_event_step:
  assumes "pHandleRead w = Some f" and "status_at w (length (calls w)) = PCAN_ERROR_QRCVEMPTY c"
    and "hasEvents w"
  shows "ReadWithTimeout_loop c p tu endTime (r, None, t, e) w =
           (let ev = (ucast (fst (waiter w (length (waits w)))) :: 32 word);
                w2 = w\<lparr>calls := calls w @ [(f, read_call c p)],
                        waits := waits w @ [(recvEvent p, tu)]\<rparr>
            in if ev = WAIT_OBJECT_0 then
                 ReadWithTimeout_loop c p tu endTime
                   (PCAN_ERROR_QRCVEMPTY c, None, None, err_at w (length (calls w))) w2
               else if ev = WAIT_FAILED then
                 Some (Return (PCAN_ERROR_QRCVEMPTY c, None, None,
                         Some (Errno (snd (waiter w (length (waits w)))))) w2)
               else Some (Return (PCAN_ERROR_QRCVEMPTY c, None, None, None) w2))"
  using assms(3)
  by (subst ReadWithTimeout_loop.simps)
     (simp add: Read_empty [OF assms(1,2)] WaitForSingleObject_def WAIT_FAILED_def Let_def
        split: prod.splits)


lemma loop_vars:
  "ReadWithTimeout_loop c p tu endTime (r, None, t, e) w =
   ReadWithTimeout_loop c p tu endTime (PCAN_ERROR_UNKNOWN c, None, None, None) w"
  by (rule trans [OF ReadWithTimeout_loop.simps], rule sym,
      rule trans [OF ReadWithTimeout_loop.simps], simp)

lemma status_at_upd [simp]:
  "status_at (w\<lparr>calls := cs\<rparr>) = status_at w"
  "status_at (w\<lparr>nnow := n\<rparr>) = status_at w"
  "status_at (w\<lparr>sleeps := sl\<rparr>) = status_at w"
  "status_at (w\<lparr>waits := ws\<rparr>) = status_at w"
  by (simp_all add: status_at_def fun_eq_iff)

lemma err_at_upd [simp]:
  "err_at (w\<lparr>calls := cs\<rparr>) = err_at w"
  "err_at (w\<lparr>nnow := n\<rparr>) = err_at w"
  "err_at (w\<lparr>sleeps := sl\<rparr>) = err_at w"
  "err_at (w\<lparr>waits := ws\<rparr>) = err_at w"
  by (simp_all add: err_at_def fun_eq_iff)

lemma clock_ms_upd [simp]:
  "clock_ms (w\<lparr>calls := cs\<rparr>) = clock_ms w"
  "clock_ms (w\<lparr>nnow := n\<rparr>) = clock_ms w"
  "clock_ms (w\<lparr>sleeps := sl\<rparr>) = clock_ms w"
  "clock_ms (w\<lparr>waits := ws\<rparr>) = clock_ms w"
  by (simp_all add: clock_ms_def fun_eq_iff)

lemma loop_poll_iter:
  assumes "pHandleRead w = Some f" and "\<not> hasEvents w"
    and "\<forall>i<j. status_at w (length (calls w) + i) = PCAN_ERROR_QRCVEMPTY c"
    and "\<forall>i<j. clock_ms w (nnow w + i) \<le> endTime"
  shows "ReadWithTimeout_loop c p tu endTime (r, None, t, e) w =
         ReadWithTimeout_loop c p tu endTime (PCAN_ERROR_UNKNOWN c, None, None, None)
           (w\<lparr>calls := calls w @ replicate j (f, read_call c p), nnow := nnow w + j,
              sleeps := sleeps w @ replicate j 250000\<rparr>)"
  using assms
proof (induction j arbitrary: w r t e)
  case 0
  then show ?case by (simp add: loop_vars [of c p tu endTime r t e])
next
  case (Suc j)
  let ?w1 = "w\<lparr>calls := calls w @ [(f, read_call c p)], nnow := Suc (nnow w),
                sleeps := sleeps w @ [250000]\<rparr>"
  from Suc.prems have e0: "status_at w (length (calls w)) = PCAN_ERROR_QRCVEMPTY c"
    and t0: "clock_ms w (nnow w) \<le> endTime"
    by (metis add.right_neutral zero_less_Suc)+
  have step: "ReadWithTimeout_loop c p tu endTime (r, None, t, e) w =
      ReadWithTimeout_loop c p tu endTime
        (PCAN_ERROR_QRCVEMPTY c, None, None, err_at w (length (calls w))) ?w1"
    using t0 by (simp add: loop_poll_step [OF Suc.prems(1) e0 Suc.prems(2)])
  have "\<forall>i<j. status_at ?w1 (length (calls ?w1) + i) = PCAN_ERROR_QRCVEMPTY c"
    using Suc.prems(3) by (auto simp: less_Suc_eq_0_disj)
  moreover have "\<forall>i<j. clock_ms ?w1 (nnow ?w1 + i) \<le> endTime"
    using Suc.prems(4) by (auto simp: less_Suc_eq_0_disj)
  ultimately have "ReadWithTimeout_loop c p tu endTime
        (PCAN_ERROR_QRCVEMPTY c, None, None, err_at w (length (calls w))) ?w1 =
      ReadWithTimeout_loop c p tu endTime (PCAN_ERROR_UNKNOWN c, None, None, None)
        (?w1\<lparr>calls := calls ?w1 @ replicate j (f, read_call c p), nnow := nnow ?w1 + j,
              sleeps := sleeps ?w1 @ replicate j 250000\<rparr>)"
    using Suc.IH [of ?w1] Suc.prems(1,2) by simp
  with step show ?case by (simp add: replicate_app_Cons_same)
qed

lemma loop_event_iter:
  assumes "pHandleRead w = Some f" and "hasEvents w"
    and "\<forall>i<j. status_at w (length (calls w) + i) = PCAN_ERROR_QRCVEMPTY c"
    and "\<forall>i<j. (ucast (fst (waiter w (length (waits w) + i))) :: 32 word) = WAIT_OBJECT_0"
  shows "ReadWithTimeout_loop c p tu endTime (r, None, t, e) w =
         ReadWithTimeout_loop c p tu endTime (PCAN_ERROR_UNKNOWN c, None, None, None)
           (w\<lparr>calls := calls w @ replicate j (f, read_call c p),
              waits := waits w @ replicate j (recvEvent p, tu)\<rparr>)"
  using assms
proof (induction j arbitrary: w r t e)
  case 0
  then show ?case by (simp add: loop_vars [of c p tu endTime r t e])
next
  case (Suc j)
  let ?w1 = "w\<lparr>calls := calls w @ [(f, read_call c p)],
                waits := waits w @ [(recvEvent p, tu)]\<rparr>"
  from Suc.prems have e0: "status_at w (length (calls w)) = PCAN_ERROR_QRCVEMPTY c"
    and t0: "(ucast (fst (waiter w (length (waits w)))) :: 32 word) = WAIT_OBJECT_0"
    by (metis add.right_neutral zero_less_Suc)+
  have step: "ReadWithTimeout_loop c p tu endTime (r, None, t, e) w =
      ReadWithTimeout_loop c p tu endTime
        (PCAN_ERROR_QRCVEMPTY c, None, None, err_at w (length (calls w))) ?w1"
    using t0 by (simp add: loop_event_step [OF Suc.prems(1) e0 Suc.prems(2)])
  have "\<forall>i<j. status_at ?w1 (length (calls ?w1) + i) = PCAN_ERROR_QRCVEMPTY c"
    using Suc.prems(3) by (auto simp: less_Suc_eq_0_disj)
  moreover have "\<forall>i<j. (ucast (fst (waiter ?w1 (length (waits ?w1) + i))) :: 32 word) = WAIT_OBJECT_0"
    using Suc.prems(4) by (auto simp: less_Suc_eq_0_disj)
  ultimately have "ReadWithTimeout_loop c p tu endTime
        (PCAN_ERROR_QRCVEMPTY c, None, None, err_at w (length (calls w))) ?w1 =
      ReadWithTimeout_loop c p tu endTime (PCAN_ERROR_UNKNOWN c, None, None, None)
        (?w1\<lparr>calls := calls ?w1 @ replicate j (f, read_call c p),
              waits := waits ?w1 @ replicate j (recvEvent p, tu)\<rparr>)"
    using Suc.IH [of ?w1] Suc.prems(1,2) by simp
  with step show ?case by (simp add: replicate_app_Cons_same)
qed


lemma ReadWithTimeout_unfold:
  "ReadWithTimeout c p timeout w =
     ReadWithTimeout_loop c p (word_of_int (effective_timeout timeout)) (deadline w timeout)
       (PCAN_ERROR_UNKNOWN c, None, None, None) (w\<lparr>nnow := Suc (nnow w)\<rparr>)"
  by (simp add: ReadWithTimeout_def now_ms_def time_Now_def effective_timeout_def deadline_def
      clock_ms_def Let_def)

lemma rounds_to_loop:
  assumes "pHandleRead w = Some f" and "\<forall>i<j. keeps_waiting c w timeout i"
  shows "ReadWithTimeout c p timeout w =
     ReadWithTimeout_loop c p (word_of_int (effective_timeout timeout)) (deadline w timeout)
       (PCAN_ERROR_UNKNOWN c, None, None, None)
       (w\<lparr>calls := calls w @ replicate j (f, read_call c p),
          nnow := Suc (nnow w) + (if hasEvents w then 0 else j),
          sleeps := sleeps w @ (if hasEvents w then [] else replicate j 250000),
          waits := waits w @ (if hasEvents w then replicate j
                     (recvEvent p, word_of_int (effective_timeout timeout)) else [])\<rparr>)"
proof (cases "hasEvents w")
  case True
  let ?w0 = "w\<lparr>nnow := Suc (nnow w)\<rparr>"
  have "\<forall>i<j. status_at ?w0 (length (calls ?w0) + i) = PCAN_ERROR_QRCVEMPTY c"
    and "\<forall>i<j. (ucast (fst (waiter ?w0 (length (waits ?w0) + i))) :: 32 word) = WAIT_OBJECT_0"
    using assms(2) True by (simp_all add: keeps_waiting_def)
  from loop_event_iter [OF _ _ this, of f p "word_of_int (effective_timeout timeout)"
      "deadline w timeout" "PCAN_ERROR_UNKNOWN c" None None] assms(1) True
  have "ReadWithTimeout c p timeout w =
      ReadWithTimeout_loop c p (word_of_int (effective_timeout timeout)) (deadline w timeout)
       (PCAN_ERROR_UNKNOWN c, None, None, None)
       (?w0\<lparr>calls := calls ?w0 @ replicate j (f, read_call c p),
          waits := waits ?w0 @ replicate j (recvEvent p, word_of_int (effective_timeout timeout))\<rparr>)"
    by (simp add: ReadWithTimeout_unfold)
  also have "?w0\<lparr>calls := calls ?w0 @ replicate j (f, read_call c p),
          waits := waits ?w0 @ replicate j (recvEvent p, word_of_int (effective_timeout timeout))\<rparr> =
       w\<lparr>calls := calls w @ replicate j (f, read_call c p),
          nnow := Suc (nnow w) + (if hasEvents w then 0 else j),
          sleeps := sleeps w @ (if hasEvents w then [] else replicate j 250000),
          waits := waits w @ (if hasEvents w then replicate j
                     (recvEvent p, word_of_int (effective_timeout timeout)) else [])\<rparr>"
    by (rule world.equality) (simp_all add: True)
  finally show ?thesis .
next
  case False
  let ?w0 = "w\<lparr>nnow := Suc (nnow w)\<rparr>"
  have "\<forall>i<j. status_at ?w0 (length (calls ?w0) + i) = PCAN_ERROR_QRCVEMPTY c"
    and "\<forall>i<j. clock_ms ?w0 (nnow ?w0 + i) \<le> deadline w timeout"
    using assms(2) False by (simp_all add: keeps_waiting_def)
  from loop_poll_iter [OF _ _ this, of f p "word_of_int (effective_timeout timeout)"
      "PCAN_ERROR_UNKNOWN c" None None] assms(1) False
  have "ReadWithTimeout c p timeout w =
      ReadWithTimeout_loop c p (word_of_int (effective_timeout timeout)) (deadline w timeout)
       (PCAN_ERROR_UNKNOWN c, None, None, None)
       (?w0\<lparr>calls := calls ?w0 @ replicate j (f, read_call c p), nnow := nnow ?w0 + j,
              sleeps := sleeps ?w0 @ replicate j 250000\<rparr>)"
    by (simp add: ReadWithTimeout_unfold)
  also have "?w0\<lparr>calls := calls ?w0 @ replicate j (f, read_call c p), nnow := nnow ?w0 + j,
              sleeps := sleeps ?w0 @ replicate j 250000\<rparr> =
       w\<lparr>calls := calls w @ replicate j (f, read_call c p),
          nnow := Suc (nnow w) + (if hasEvents w then 0 else j),
          sleeps := sleeps w @ (if hasEvents w then [] else replicate j 250000),
          waits := waits w @ (if hasEvents w then replicate j
                     (recvEvent p, word_of_int (effective_timeout timeout)) else [])\<rparr>"
    by (rule world.equality) (simp_all add: False)
  finally show ?thesis .
qed

lemma rwt_first_frame:
  assumes "pHandleRead w = Some f"
    and "\<forall>i<j. keeps_waiting c w timeout i"
    and "status_at w (length (calls w) + j) \<noteq> PCAN_ERROR_QRCVEMPTY c"
  shows "ReadWithTimeout c p timeout w =
     Some (Return (status_at w (length (calls w) + j),
                   Some (omsg (driver w (length (calls w) + j))),
                   Some (ots (driver w (length (calls w) + j))),
                   err_at w (length (calls w) + j))
            (w\<lparr>calls := calls w @ replicate (Suc j) (f, read_call c p),
               nnow := Suc (nnow w) + (if hasEvents w then 0 else j),
               sleeps := sleeps w @ (if hasEvents w then [] else replicate j 250000),
               waits := waits w @ (if hasEvents w then replicate j
                          (recvEvent p, word_of_int (effective_timeout timeout)) else [])\<rparr>))"
  using assms(1,3)
  by (simp add: rounds_to_loop [OF assms(1,2)] loop_frame [where f = f] replicate_append_same)


lemma syscallErr_nil:
  "(syscallErr (Some e) = None) = (e = 0 \<or> e = ERROR_INSUFFICIENT_BUFFER)"
  by (simp add: syscallErr_def)

lemma rwt_deadline:
  assumes "pHandleRead w = Some f"
    and "\<forall>i<j. keeps_waiting c w timeout i"
    and "status_at w (length (calls w) + j) = PCAN_ERROR_QRCVEMPTY c"
    and "if hasEvents w then (ucast (fst (waiter w (length (waits w) + j))) :: 32 word) = WAIT_TIMEOUT
         else clock_ms w (Suc (nnow w) + j) > deadline w timeout"
  shows "ReadWithTimeout c p timeout w =
     Some (Return (PCAN_ERROR_QRCVEMPTY c, None, None,
                   if hasEvents w then None
                   else syscallErr (Some (lastErr (driver w (length (calls w) + j)))))
            (w\<lparr>calls := calls w @ replicate (Suc j) (f, read_call c p),
               nnow := Suc (nnow w) + (if hasEvents w then 0 else Suc j),
               sleeps := sleeps w @ (if hasEvents w then [] else replicate j 250000),
               waits := waits w @ (if hasEvents w then replicate (Suc j)
                          (recvEvent p, word_of_int (effective_timeout timeout)) else [])\<rparr>))"
proof (cases "hasEvents w")
  case True
  let ?w1 = "w\<lparr>calls := calls w @ replicate j (f, read_call c p),
          nnow := Suc (nnow w) + (if hasEvents w then 0 else j),
          sleeps := sleeps w @ (if hasEvents w then [] else replicate j 250000),
          waits := waits w @ (if hasEvents w then replicate j
                     (recvEvent p, word_of_int (effective_timeout timeout)) else [])\<rparr>"
  have "pHandleRead ?w1 = Some f" "hasEvents ?w1"
    "status_at ?w1 (length (calls ?w1)) = PCAN_ERROR_QRCVEMPTY c"
    using assms(1,3) True by simp_all
  from loop_event_step [OF this(1) this(3) this(2)] assms(4) True
  show ?thesis
    by (simp add: rounds_to_loop [OF assms(1,2)] WAIT_TIMEOUT_def WAIT_OBJECT_0_def WAIT_FAILED_def
        replicate_append_same)
next
  case False
  let ?w1 = "w\<lparr>calls := calls w @ replicate j (f, read_call c p),
          nnow := Suc (nnow w) + (if hasEvents w then 0 else j),
          sleeps := sleeps w @ (if hasEvents w then [] else replicate j 250000),
          waits := waits w @ (if hasEvents w then replicate j
                     (recvEvent p, word_of_int (effective_timeout timeout)) else [])\<rparr>"
  have "pHandleRead ?w1 = Some f" "\<not> hasEvents ?w1"
    "status_at ?w1 (length (calls ?w1)) = PCAN_ERROR_QRCVEMPTY c"
    using assms(1,3) False by simp_all
  from loop_poll_step [OF this(1) this(3) this(2)] assms(4) False
  show ?thesis
    by (simp add: rounds_to_loop [OF assms(1,2)] replicate_append_same err_at_def)
qed

lemma Read_status:
  "Read c p w = Return (st, m, t, e) w' \<Longrightarrow>
   (st = PCAN_ERROR_QRCVEMPTY c \<longleftrightarrow> m = None) \<and> (m = None \<longleftrightarrow> t = None)"
  by (auto simp: Read_def split: outcome.splits if_splits)

lemma loop_status:
  "ReadWithTimeout_loop c p tu endTime vars w = Some y \<Longrightarrow>
   (fst (snd vars) = None \<longleftrightarrow> fst (snd (snd vars)) = None) \<and>
   (fst (snd vars) \<noteq> None \<longrightarrow> fst vars \<noteq> PCAN_ERROR_QRCVEMPTY c) \<longrightarrow>
   (\<forall>st m t e w'. y = Return (st, m, t, e) w' \<longrightarrow>
      (st = PCAN_ERROR_QRCVEMPTY c \<longleftrightarrow> m = None) \<and> (m = None \<longleftrightarrow> t = None))"
proof (induction rule: ReadWithTimeout_loop.raw_induct [rotated 1, consumes 1])
  case (1 loop c p tu endTime vars w y)
  note IH = 1(1) and body = 1(2)
  obtain ret0 msg0 ts0 err0 where vars: "vars = (ret0, msg0, ts0, err0)"
    by (cases vars) auto
  show ?case
  proof (cases "msg0 = None")
    case False
    with body vars show ?thesis by auto
  next
    case True
    show ?thesis
    proof (cases "Read c p w")
      case (Panic w1)
      with True body vars show ?thesis by auto
    next
      case (Return rr w1)
      obtain ret msg ts err where rr: "rr = (ret, msg, ts, err)"
        by (cases rr) auto
      have pair: "(ret = PCAN_ERROR_QRCVEMPTY c \<longleftrightarrow> msg = None) \<and> (msg = None \<longleftrightarrow> ts = None)"
        using Return rr Read_status by blast
      have rec: "loop c p tu endTime (ret, msg, ts, err) w2 = Some y \<Longrightarrow>
          \<forall>st m t e w'. y = Return (st, m, t, e) w' \<longrightarrow>
            (st = PCAN_ERROR_QRCVEMPTY c \<longleftrightarrow> m = None) \<and> (m = None \<longleftrightarrow> t = None)" for w2
        using IH [of c p tu endTime "(ret, msg, ts, err)" w2 y] pair by simp
      from body True vars Return rr rec pair show ?thesis
        by (auto split: prod.splits if_splits)
    qed
  qed
qed

subsection \<open>The calls a wait has made\<close>

lemma Read_some:
  assumes "pHandleRead w = Some f"
  shows "\<exists>res. Read c p w = Return res (w\<lparr>calls := calls w @ [(f, read_call c p)]\<rparr>)"
  using assms by (simp add: Read_def Call_def read_call_def)

lemma Read_calls:
  "\<exists>r. calls (world_of (Read c p w)) = calls w @ r"
  by (cases "pHandleRead w") (simp_all add: Read_def Call_def)

lemma loop_calls:
  "ReadWithTimeout_loop c p tu endTime vars w = Some y \<Longrightarrow>
   \<exists>r. calls (world_of y) = calls w @ r"
proof (induction rule: ReadWithTimeout_loop.raw_induct [rotated 1, consumes 1])
  case (1 loop c p tu endTime vars w y)
  note IH = 1(1) and body = 1(2)
  obtain ret0 msg0 ts0 err0 where vars: "vars = (ret0, msg0, ts0, err0)"
    by (cases vars) auto
  show ?case
  proof (cases "msg0 = None")
    case False
    with body vars show ?thesis by auto
  next
    case True
    obtain r0 where r0: "calls (world_of (Read c p w)) = calls w @ r0"
      using Read_calls by blast
    show ?thesis
    proof (cases "Read c p w")
      case (Panic w1)
      with True body vars r0 show ?thesis by auto
    next
      case (Return rr w1)
      obtain ret msg ts err where rr: "rr = (ret, msg, ts, err)"
        by (cases rr) auto
      have w1: "calls w1 = calls w @ r0"
        using r0 Return by simp
      have rec: "\<exists>r. calls (world_of y) = calls w @ r"
        if "loop c p tu endTime v w2 = Some y" and "calls w2 = calls w1" for v w2
        using IH [OF that(1)] that(2) w1 by auto
      from body True vars Return rr show ?thesis
        by (auto simp: w1 WaitForSingleObject_def now_ms_def time_Now_def time_Sleep_def Let_def
              split: prod.splits if_splits dest!: rec)
    qed
  qed
qed

lemma loop_first_read:
  assumes "ReadWithTimeout_loop c p tu endTime (r, None, t, e) w = Some y"
    and "pHandleRead w = Some f"
  shows "\<exists>rest. calls (world_of y) = calls w @ (f, read_call c p) # rest"
proof -
  let ?w1 = "w\<lparr>calls := calls w @ [(f, read_call c p)]\<rparr>"
  obtain ret msg ts err where rd: "Read c p w = Return (ret, msg, ts, err) ?w1"
    using Read_some [OF assms(2), of c p] by (metis prod_cases4)
  have rec: "\<exists>rest. calls (world_of y) = calls w @ (f, read_call c p) # rest"
    if "ReadWithTimeout_loop c p tu endTime v w2 = Some y" and "calls w2 = calls ?w1" for v w2
    using loop_calls [OF that(1)] that(2) by auto
  from assms(1) have "(if ret = PCAN_ERROR_QRCVEMPTY c then
                 (if hasEvents ?w1 then
                    (case WaitForSingleObject (recvEvent p) tu ?w1 of
                       ((val, errWait), w2) \<Rightarrow>
                         if val = WAIT_OBJECT_0 then
                           ReadWithTimeout_loop c p tu endTime (ret, msg, ts, err) w2
                         else if val = WAIT_FAILED then Some (Return (ret, None, None, errWait) w2)
                         else if val = WAIT_TIMEOUT then Some (Return (ret, None, None, errWait) w2)
                         else Some (Return (ret, msg, ts, errWait) w2))
                  else
                    (case now_ms ?w1 of
                       (now, w2) \<Rightarrow>
                         if now > endTime then Some (Return (ret, None, None, err) w2)
                         else ReadWithTimeout_loop c p tu endTime (ret, msg, ts, err)
                                (time_Sleep (250 * Microsecond) w2)))
               else ReadWithTimeout_loop c p tu endTime (ret, msg, ts, err) ?w1) = Some y"
    by (subst (asm) ReadWithTimeout_loop.simps) (simp add: rd)
  then show ?thesis
    by (auto simp: WaitForSingleObject_def now_ms_def time_Now_def time_Sleep_def Let_def
          split: prod.splits if_splits dest!: rec)
qed


subsection \<open>The rounds of ReadFullBuffer\<close>

lemma rfb_step:
  assumes "pHandleRead w = Some f" and "status_at w (length (calls w)) \<noteq> PCAN_ERROR_QRCVEMPTY c"
  shows "ReadFullBuffer_loop c p limit msgs ts w =
     (if limit \<noteq> 0 \<and> limit \<le> int (Suc (length msgs)) then
        Some (Return (msgs @ [omsg (driver w (length (calls w)))],
                      ts @ [ots (driver w (length (calls w)))], err_at w (length (calls w)))
               (w\<lparr>calls := calls w @ [(f, read_call c p)]\<rparr>))
      else ReadFullBuffer_loop c p limit (msgs @ [omsg (driver w (length (calls w)))])
             (ts @ [ots (driver w (length (calls w)))])
             (w\<lparr>calls := calls w @ [(f, read_call c p)]\<rparr>))"
  using assms(2)
  by (subst ReadFullBuffer_loop.simps) (simp add: Read_frame [OF assms])

lemma rfb_empty:
  assumes "pHandleRead w = Some f" and "status_at w (length (calls w)) = PCAN_ERROR_QRCVEMPTY c"
  shows "ReadFullBuffer_loop c p limit msgs ts w =
     Some (Return (msgs, ts, err_at w (length (calls w)))
            (w\<lparr>calls := calls w @ [(f, read_call c p)]\<rparr>))"
  by (subst ReadFullBuffer_loop.simps) (simp add: Read_empty [OF assms])

lemma queued_Suc:
  "queued_msgs w (Suc j) =
     omsg (driver w (length (calls w))) # queued_msgs (w\<lparr>calls := calls w @ [x]\<rparr>) j"
  "queued_timestamps w (Suc j) =
     ots (driver w (length (calls w))) # queued_timestamps (w\<lparr>calls := calls w @ [x]\<rparr>) j"
  by (simp_all add: queued_msgs_def queued_timestamps_def upt_conv_Cons
        map_Suc_upt [symmetric] del: upt_Suc)

lemma queued_snoc:
  "queued_msgs w (Suc j) = queued_msgs w j @ [omsg (driver w (length (calls w) + j))]"
  "queued_timestamps w (Suc j) = queued_timestamps w j @ [ots (driver w (length (calls w) + j))]"
  by (simp_all add: queued_msgs_def queued_timestamps_def)

lemma queued_length [simp]:
  "length (queued_msgs w j) = j" "length (queued_timestamps w j) = j"
  by (simp_all add: queued_msgs_def queued_timestamps_def)

lemma rfb_iter:
  assumes "pHandleRead w = Some f"
    and "\<forall>i<j. status_at w (length (calls w) + i) \<noteq> PCAN_ERROR_QRCVEMPTY c"
    and "limit = 0 \<or> int (length msgs + j) < limit"
  shows "ReadFullBuffer_loop c p limit msgs ts w =
         ReadFullBuffer_loop c p limit (msgs @ queued_msgs w j) (ts @ queued_timestamps w j)
           (w\<lparr>calls := calls w @ replicate j (f, read_call c p)\<rparr>)"
  using assms
proof (induction j arbitrary: w msgs ts)
  case 0
  then show ?case by (simp add: queued_msgs_def queued_timestamps_def)
next
  case (Suc j)
  let ?w1 = "w\<lparr>calls := calls w @ [(f, read_call c p)]\<rparr>"
  let ?m = "omsg (driver w (length (calls w)))"
  let ?t = "ots (driver w (length (calls w)))"
  from Suc.prems(2) have e0: "status_at w (length (calls w)) \<noteq> PCAN_ERROR_QRCVEMPTY c"
    by (metis add.right_neutral zero_less_Suc)
  have step: "ReadFullBuffer_loop c p limit msgs ts w =
      ReadFullBuffer_loop c p limit (msgs @ [?m]) (ts @ [?t]) ?w1"
    using Suc.prems(3) by (subst rfb_step [OF Suc.prems(1) e0]) auto
  have "\<forall>i<j. status_at ?w1 (length (calls ?w1) + i) \<noteq> PCAN_ERROR_QRCVEMPTY c"
    using Suc.prems(2) by (auto simp: less_Suc_eq_0_disj)
  moreover have "limit = 0 \<or> int (length (msgs @ [?m]) + j) < limit"
    using Suc.prems(3) by simp
  ultimately have "ReadFullBuffer_loop c p limit (msgs @ [?m]) (ts @ [?t]) ?w1 =
      ReadFullBuffer_loop c p limit ((msgs @ [?m]) @ queued_msgs ?w1 j)
        ((ts @ [?t]) @ queued_timestamps ?w1 j)
        (?w1\<lparr>calls := calls ?w1 @ replicate j (f, read_call c p)\<rparr>)"
    using Suc.IH [of ?w1 "msgs @ [?m]" "ts @ [?t]"] Suc.prems(1) by simp
  with step show ?case
    by (simp add: queued_Suc [where x = "(f, read_call c p)"] replicate_app_Cons_same)
qed

lemma rfb_all:
  assumes "pHandleRead w = Some f"
    and "\<forall>i<k. status_at w (length (calls w) + i) \<noteq> PCAN_ERROR_QRCVEMPTY c"
    and "status_at w (length (calls w) + k) = PCAN_ERROR_QRCVEMPTY c"
    and "limit = 0 \<or> int k < limit"
  shows "ReadFullBuffer c p limit w =
     Some (Return (queued_msgs w k, queued_timestamps w k, err_at w (length (calls w) + k))
            (w\<lparr>calls := calls w @ replicate (Suc k) (f, read_call c p)\<rparr>))"
proof -
  let ?wk = "w\<lparr>calls := calls w @ replicate k (f, read_call c p)\<rparr>"
  have "ReadFullBuffer c p limit w =
      ReadFullBuffer_loop c p limit (queued_msgs w k) (queued_timestamps w k) ?wk"
    using rfb_iter [OF assms(1,2), of limit "[]" p "[]"] assms(4)
    by (simp add: ReadFullBuffer_def)
  moreover have "pHandleRead ?wk = Some f"
    "status_at ?wk (length (calls ?wk)) = PCAN_ERROR_QRCVEMPTY c"
    using assms(1,3) by simp_all
  ultimately show ?thesis
    by (simp add: rfb_empty [where f = f] replicate_append_same)
qed

lemma rfb_limit:
  assumes "pHandleRead w = Some f"
    and "\<forall>i<nat limit. status_at w (length (calls w) + i) \<noteq> PCAN_ERROR_QRCVEMPTY c"
    and "0 < limit"
  shows "ReadFullBuffer c p limit w =
     Some (Return (queued_msgs w (nat limit), queued_timestamps w (nat limit),
                   err_at w (length (calls w) + (nat limit - 1)))
            (w\<lparr>calls := calls w @ replicate (nat limit) (f, read_call c p)\<rparr>))"
proof -
  obtain j where j: "nat limit = Suc j"
    using assms(3) by (cases "nat limit") auto
  let ?wj = "w\<lparr>calls := calls w @ replicate j (f, read_call c p)\<rparr>"
  have "\<forall>i<j. status_at w (length (calls w) + i) \<noteq> PCAN_ERROR_QRCVEMPTY c"
    using assms(2) j by simp
  moreover have "limit = 0 \<or> int (length ([] :: TPCANMsg list) + j) < limit"
    using j by simp linarith
  ultimately have "ReadFullBuffer c p limit w =
      ReadFullBuffer_loop c p limit (queued_msgs w j) (queued_timestamps w j) ?wj"
    using rfb_iter [OF assms(1), of j c limit "[]" p "[]"]
    by (simp add: ReadFullBuffer_def)
  moreover have "pHandleRead ?wj = Some f"
    "status_at ?wj (length (calls ?wj)) \<noteq> PCAN_ERROR_QRCVEMPTY c"
    using assms(1,2) j by simp_all
  moreover have "limit \<noteq> 0 \<and> limit \<le> int (Suc (length (queued_msgs w j)))"
    using j assms(3) by simp
  ultimately show ?thesis
    using j by (simp add: rfb_step [where f = f] replicate_append_same queued_snoc)
qed

lemma queued_take:
  "l \<le> k \<Longrightarrow> take l (queued_msgs w k) = queued_msgs w l"
  "l \<le> k \<Longrightarrow> take l (queued_timestamps w k) = queued_timestamps w l"
  by (simp_all add: queued_msgs_def queued_timestamps_def take_map min_def)

lemma queued_drop:
  "l \<le> k \<Longrightarrow> drop l (queued_msgs w k) =
     queued_msgs (w\<lparr>calls := calls w @ replicate l x\<rparr>) (k - l)"
  "l \<le> k \<Longrightarrow> drop l (queued_timestamps w k) =
     queued_timestamps (w\<lparr>calls := calls w @ replicate l x\<rparr>) (k - l)"
  by (simp_all add: queued_msgs_def queued_timestamps_def drop_map)
     (rule nth_equalityI, simp, simp add: ac_simps)+

lemma rfb_diverges:
  "ReadFullBuffer_loop c p limit msgs ts w = Some y \<Longrightarrow>
   \<not> (limit = 0 \<and> pHandleRead w \<noteq> None \<and>
      (\<forall>i. status_at w (length (calls w) + i) \<noteq> PCAN_ERROR_QRCVEMPTY c))"
proof (induction rule: ReadFullBuffer_loop.raw_induct [rotated 1, consumes 1])
  case (1 loop c p limit msgs ts w y)
  note IH = 1(1) and body = 1(2)
  show ?case
  proof
    assume inv: "limit = 0 \<and> pHandleRead w \<noteq> None \<and>
      (\<forall>i. status_at w (length (calls w) + i) \<noteq> PCAN_ERROR_QRCVEMPTY c)"
    then obtain f where f: "pHandleRead w = Some f" by auto
    from inv have e0: "status_at w (length (calls w)) \<noteq> PCAN_ERROR_QRCVEMPTY c"
      by (metis add.right_neutral)
    let ?w1 = "w\<lparr>calls := calls w @ [(f, read_call c p)]\<rparr>"
    from body inv e0 have "loop c p limit (msgs @ [omsg (driver w (length (calls w)))])
        (ts @ [ots (driver w (length (calls w)))]) ?w1 = Some y"
      by (simp add: Read_frame [OF f e0])
    from IH [OF this] inv f show False
      by (auto simp: add.assoc [symmetric] dest: spec [where x = "Suc i" for i])
  qed
qed

subsection \<open>After unloading\<close>

lemma unloaded_sel [simp]:
  "pHandleUninitialize (after_unload w) = None" "pHandleReset (after_unload w) = None"
  "pHandleGetStatus (after_unload w) = None" "pHandleRead (after_unload w) = None"
  "pHandleWrite (after_unload w) = None" "pHandleGetValue (after_unload w) = None"
  "pHandleSetValue (after_unload w) = None"
  by (simp_all add: after_unload_def UnloadAPI_def Let_def split: option.splits)

lemma Read_unloaded:
  "Read c p (after_unload w) = Panic (after_unload w)"
  by (simp add: Read_def Call_def)

lemma SetValue_unloaded:
  "SetValue p param buffer bufferSize (after_unload w) = Panic (after_unload w)"
  by (simp add: SetValue_def call_status_def Call_def)

subsection \<open>StartTrace with a path that is too long\<close>

lemma StartTrace_path_long:
  assumes "length filePath > MAX_LENGHT_STRING_BUFFER c"
  shows "StartTrace_path c p filePath w =
     Return (PCAN_ERROR_UNKNOWN c,
             Some (Errorf ''filepath exceeds max length of %v'' (MAX_LENGHT_STRING_BUFFER c))) w"
  using assms by (simp add: StartTrace_path_def)

lemma SetValue_loaded:
  assumes "pHandleSetValue w = Some f"
  shows "SetValue p param buffer bufferSize w =
     Return (status_at w (length (calls w)), err_at w (length (calls w)))
       (w\<lparr>calls := calls w @ [(f, set_value_call p param buffer bufferSize)]\<rparr>)"
  using assms
  by (simp add: SetValue_def call_status_def Call_def status_at_def err_at_def set_value_call_def)

lemma StartTrace_long:
  assumes "length filePath > MAX_LENGHT_STRING_BUFFER c"
    and "pHandleSetValue w = Some f"
    and "maxFileSize \<le> MAX_TRACE_FILE_SIZE_ACCEPTED c"
  shows "StartTrace c p filePath maxFileSize w =
     (let n = length (calls w);
          w1 = w\<lparr>calls := calls w @ [(f, set_value_call p (PCAN_TRACE_CONFIGURE c)
                      (PtrU32 (trace_configuration c maxFileSize)) 4)]\<rparr>;
          w2 = w1\<lparr>calls := calls w1 @ [(f, set_value_call p (PCAN_TRACE_SIZE c)
                      (PtrU32 maxFileSize) 4)]\<rparr>;
          rejected = (PCAN_ERROR_UNKNOWN c,
             Some (Errorf ''filepath exceeds max length of %v'' (MAX_LENGHT_STRING_BUFFER c)))
      in if succeeded c w n then
           (if 0 < maxFileSize then
              (if succeeded c w (Suc n) then Return rejected w2
               else Return (status_at w (Suc n), err_at w (Suc n)) w2)
            else Return rejected w1)
         else Return (status_at w n, err_at w n) w1)"
proof -
  have nle: "\<not> MAX_TRACE_FILE_SIZE_ACCEPTED c < maxFileSize"
    using assms(3) by simp
  let ?w1 = "w\<lparr>calls := calls w @ [(f, set_value_call p (PCAN_TRACE_CONFIGURE c)
                      (PtrU32 (trace_configuration c maxFileSize)) 4)]\<rparr>"
  have s1: "SetParameter p (PCAN_TRACE_CONFIGURE c) (trace_configuration c maxFileSize) w =
      Return (status_at w (length (calls w)), err_at w (length (calls w))) ?w1"
    by (simp add: SetParameter_def SetValue_loaded [OF assms(2)])
  have h: "pHandleSetValue ?w1 = Some f" using assms(2) by simp
  have s2: "SetValue p (PCAN_TRACE_SIZE c) (PtrU32 maxFileSize) 4 ?w1 =
      Return (status_at w (Suc (length (calls w))), err_at w (Suc (length (calls w))))
        (?w1\<lparr>calls := calls ?w1 @ [(f, set_value_call p (PCAN_TRACE_SIZE c)
                      (PtrU32 maxFileSize) 4)]\<rparr>)"
    by (simp add: SetValue_loaded [OF h])
  show ?thesis
  proof (cases "0 < maxFileSize")
    case True
    then have cfg: "((TRACE_FILE_DATE c OR TRACE_FILE_TIME c OR TRACE_FILE_OVERWRITE c) OR
        TRACE_FILE_SEGMENTED c) = trace_configuration c maxFileSize"
      by (simp add: trace_configuration_def Let_def)
    from True nle show ?thesis
      unfolding StartTrace_def Let_def
      by (simp only: if_False if_True cfg s1 s2 outcome.case prod.case
            StartTrace_path_long [OF assms(1)])
         (auto simp: succeeded_def)
  next
    case False
    then have cfg: "((TRACE_FILE_DATE c OR TRACE_FILE_TIME c OR TRACE_FILE_OVERWRITE c) OR
        TRACE_FILE_SINGLE c) = trace_configuration c maxFileSize"
      by (simp add: trace_configuration_def Let_def)
    from False nle show ?thesis
      unfolding StartTrace_def Let_def
      by (simp only: if_False if_True cfg s1 s2 outcome.case prod.case
            StartTrace_path_long [OF assms(1)])
         (auto simp: succeeded_def)
  qed
qed


section \<open>The claims\<close>

subsection \<open>ReadWithTimeout\<close>

text \<open>
  Claim C1, as amended. If the first \<open>j\<close> rounds go on waiting, the read of round
  \<open>j\<close> reports the empty queue as well and the deadline has then passed (the wait of
  that round times out or, without events, the clock read after it is beyond the
  deadline), then \<^verbatim>\<open>ReadWithTimeout\<close> returns the status of the empty queue, no message
  and no timestamp. The error is \<^verbatim>\<open>nil\<close> with events; without events it is the
  platform error of the last read, which is \<^verbatim>\<open>nil\<close> exactly for the error numbers
  zero and \<^verbatim>\<open>ERROR_INSUFFICIENT_BUFFER\<close>.
\<close>

theorem ReadWithTimeout_deadline_passes:
  assumes "pHandleRead w = Some f"
    and "\<forall>i<j. keeps_waiting c w timeout i"
    and "status_at w (length (calls w) + j) = PCAN_ERROR_QRCVEMPTY c"
    and "if hasEvents w then (ucast (fst (waiter w (length (waits w) + j))) :: 32 word) = WAIT_TIMEOUT
         else clock_ms w (Suc (nnow w) + j) > deadline w timeout"
  shows "ReadWithTimeout c p timeout w =
     Some (Return (PCAN_ERROR_QRCVEMPTY c, None, None,
                   if hasEvents w then None
                   else syscallErr (Some (lastErr (driver w (length (calls w) + j)))))
            (w\<lparr>calls := calls w @ replicate (Suc j) (f, read_call c p),
               nnow := Suc (nnow w) + (if hasEvents w then 0 else Suc j),
               sleeps := sleeps w @ (if hasEvents w then [] else replicate j 250000),
               waits := waits w @ (if hasEvents w then replicate (Suc j)
                          (recvEvent p, word_of_int (effective_timeout timeout)) else [])\<rparr>))"
  by (rule rwt_deadline [OF assms])

theorem ReadWithTimeout_deadline_passes_witness:
  "pHandleRead (loaded (always (no_frame 0))) = Some ''CAN_Read'' \<and>
   keeps_waiting pcan_basic (loaded (always (no_frame 0))) 1 0 \<and>
   status_at (loaded (always (no_frame 0))) (length (calls (loaded (always (no_frame 0)))) + 1)
     = PCAN_ERROR_QRCVEMPTY pcan_basic \<and>
   deadline (loaded (always (no_frame 0))) 1 < clock_ms (loaded (always (no_frame 0))) 2 \<and>
   ReadWithTimeout pcan_basic usb1 1 (loaded (always (no_frame 0))) =
     Some (Return (PCAN_ERROR_QRCVEMPTY pcan_basic, None, None, None)
            ((loaded (always (no_frame 0)))\<lparr>calls := replicate 2 (''CAN_Read'', read_call pcan_basic usb1),
               nnow := 3, sleeps := replicate 1 250000\<rparr>))"
proof -
  let ?w = "loaded (always (no_frame 0))"
  have h1: "pHandleRead ?w = Some ''CAN_Read''" by simp
  have k0: "keeps_waiting pcan_basic ?w 1 0"
    by (simp add: stub_evals)
  have h2: "\<forall>i<Suc 0. keeps_waiting pcan_basic ?w 1 i"
    using k0 by simp
  have h3: "status_at ?w (length (calls ?w) + Suc 0) = PCAN_ERROR_QRCVEMPTY pcan_basic"
    by (simp add: stub_evals)
  have d: "deadline ?w 1 < clock_ms ?w 2"
    by (simp add: stub_evals)
  have h4: "if hasEvents ?w then (ucast (fst (waiter ?w (length (waits ?w) + Suc 0))) :: 32 word) = WAIT_TIMEOUT
         else clock_ms ?w (Suc (nnow ?w) + Suc 0) > deadline ?w 1"
    by (simp add: stub_evals)
  have res: "ReadWithTimeout pcan_basic usb1 1 ?w =
     Some (Return (PCAN_ERROR_QRCVEMPTY pcan_basic, None, None, None)
            (?w\<lparr>calls := replicate 2 (''CAN_Read'', read_call pcan_basic usb1),
               nnow := 3, sleeps := replicate 1 250000\<rparr>))"
    using ReadWithTimeout_deadline_passes [OF h1 h2 h3 h4, of usb1]
    by (simp add: always_def no_frame_def syscallErr_def numeral_2_eq_2 numeral_3_eq_3)
  from h1 k0 h3 d res show ?thesis by simp
qed

text \<open>
  Claim C1 as it was stated fails where the last read leaves a platform error other
  than zero and \<^verbatim>\<open>ERROR_INSUFFICIENT_BUFFER\<close>: with the timeout \<open>0\<close>, a native
  layer that always reports the empty queue with the error number \<open>5\<close> and the clock
  past the deadline at its second reading, the error returned is not \<^verbatim>\<open>nil\<close>.
\<close>

theorem ReadWithTimeout_empty_queue_error_counterexample:
  "status_at (loaded (always (no_frame 5))) 0 = PCAN_ERROR_QRCVEMPTY pcan_basic \<and>
   deadline (loaded (always (no_frame 5))) 0 < clock_ms (loaded (always (no_frame 5))) 1 \<and>
   ReadWithTimeout pcan_basic usb1 0 (loaded (always (no_frame 5))) =
     Some (Return (PCAN_ERROR_QRCVEMPTY pcan_basic, None, None, Some (ErrnoText 5))
            ((loaded (always (no_frame 5)))\<lparr>calls := [(''CAN_Read'', read_call pcan_basic usb1)],
               nnow := 2\<rparr>))"
proof -
  let ?w = "loaded (always (no_frame 5))"
  have h1: "pHandleRead ?w = Some ''CAN_Read''" by simp
  have h2: "\<forall>i<0. keeps_waiting pcan_basic ?w 0 i" by simp
  have h3: "status_at ?w (length (calls ?w) + 0) = PCAN_ERROR_QRCVEMPTY pcan_basic"
    by (simp add: stub_evals)
  have h4: "if hasEvents ?w then (ucast (fst (waiter ?w (length (waits ?w) + 0))) :: 32 word) = WAIT_TIMEOUT
         else clock_ms ?w (Suc (nnow ?w) + 0) > deadline ?w 0"
    by (simp add: stub_evals)
  show ?thesis
    using rwt_deadline [OF h1 h2 h3 h4, of usb1]
    by (simp add: stub_evals)
qed

text \<open>
  Claim C2. In a world where the entry point of the read is loaded: if the first \<open>j\<close>
  rounds of a call of \<^verbatim>\<open>ReadWithTimeout\<close> go on waiting and the read of round \<open>j\<close>
  returns anything but the empty queue, the call returns the status, message, timestamp
  and error of that very read, and it has made \<open>j + 1\<close> reads, \<open>j\<close> sleeps or waits
  and nothing after the read that returned the frame, whatever the native layer would
  answer to further reads.
\<close>

theorem ReadWithTimeout_stops_at_first_frame:
  assumes "pHandleRead w = Some f"
    and "\<forall>i<j. keeps_waiting c w timeout i"
    and "status_at w (length (calls w) + j) \<noteq> PCAN_ERROR_QRCVEMPTY c"
  shows "ReadWithTimeout c p timeout w =
     Some (Return (status_at w (length (calls w) + j),
                   Some (omsg (driver w (length (calls w) + j))),
                   Some (ots (driver w (length (calls w) + j))),
                   err_at w (length (calls w) + j))
            (w\<lparr>calls := calls w @ replicate (Suc j) (f, read_call c p),
               nnow := Suc (nnow w) + (if hasEvents w then 0 else j),
               sleeps := sleeps w @ (if hasEvents w then [] else replicate j 250000),
               waits := waits w @ (if hasEvents w then replicate j
                          (recvEvent p, word_of_int (effective_timeout timeout)) else [])\<rparr>))"
  by (rule rwt_first_frame [OF assms])

theorem ReadWithTimeout_stops_at_first_frame_witness:
  "pHandleRead (loaded (frames_after 2)) = Some ''CAN_Read'' \<and>
   keeps_waiting pcan_basic (loaded (frames_after 2)) 5 0 \<and>
   keeps_waiting pcan_basic (loaded (frames_after 2)) 5 1 \<and>
   status_at (loaded (frames_after 2)) (length (calls (loaded (frames_after 2))) + 2)
     \<noteq> PCAN_ERROR_QRCVEMPTY pcan_basic \<and>
   ReadWithTimeout pcan_basic usb1 5 (loaded (frames_after 2)) =
     Some (Return (PCAN_ERROR_OK pcan_basic, Some (frame 2), Some (stamp 2), None)
            ((loaded (frames_after 2))\<lparr>calls := replicate 3 (''CAN_Read'', read_call pcan_basic usb1),
               nnow := 3, sleeps := replicate 2 250000\<rparr>))"
proof -
  let ?w = "loaded (frames_after 2)"
  have h1: "pHandleRead ?w = Some ''CAN_Read''" by simp
  have h2: "\<forall>i<2. keeps_waiting pcan_basic ?w 5 i"
    by (simp add: all_less_2 stub_evals)
  have h3: "status_at ?w (length (calls ?w) + 2) \<noteq> PCAN_ERROR_QRCVEMPTY pcan_basic"
    by (simp add: stub_evals)
  show ?thesis
    using h1 h2 h3 ReadWithTimeout_stops_at_first_frame [OF h1 h2 h3, of usb1]
    by (simp add: stub_evals all_less_2 frame_def stamp_def)
qed

text \<open>
  Claim C3. The claim does not hold of the code. A negative timeout is replaced by
  \<^verbatim>\<open>syscall.INFINITE\<close>, the number \<open>4294967295\<close>, and without events the deadline
  is the first clock reading plus that many milliseconds. Once the clock has passed it
  the call returns the empty outcome: here the native layer always reports the empty
  queue and the clock advances by \<open>2 ^ 32\<close> milliseconds from one reading to the
  next, and the call made with the timeout \<open>- 1\<close> returns the status of the empty
  queue, no message, no timestamp and no error after one read.
\<close>

theorem ReadWithTimeout_negative_timeout_expires:
  "ReadWithTimeout pcan_basic usb1 (- 1) (slow_clock (loaded (always (no_frame 0)))) =
     Some (Return (PCAN_ERROR_QRCVEMPTY pcan_basic, None, None, None)
            ((slow_clock (loaded (always (no_frame 0))))\<lparr>
               calls := [(''CAN_Read'', read_call pcan_basic usb1)], nnow := 2\<rparr>))"
proof -
  let ?w = "slow_clock (loaded (always (no_frame 0)))"
  have h1: "pHandleRead ?w = Some ''CAN_Read''" by simp
  have h2: "\<forall>i<0. keeps_waiting pcan_basic ?w (- 1) i" by simp
  have h3: "status_at ?w (length (calls ?w) + 0) = PCAN_ERROR_QRCVEMPTY pcan_basic"
    by (simp add: stub_evals)
  have h4: "if hasEvents ?w then (ucast (fst (waiter ?w (length (waits ?w) + 0))) :: 32 word) = WAIT_TIMEOUT
         else clock_ms ?w (Suc (nnow ?w) + 0) > deadline ?w (- 1)"
    by (simp add: stub_evals)
  show ?thesis
    using rwt_deadline [OF h1 h2 h3 h4, of usb1]
    by (simp add: stub_evals)
qed

text \<open>
  Claim C4. In a world where the entry point of the read is loaded, a call of
  \<^verbatim>\<open>ReadWithTimeout\<close> with the timeout \<open>0\<close> returns the frame of its first read,
  with the status, timestamp and error of that read, when that read reports anything
  but the empty queue; and whatever such a call returns, the first thing it has done
  to the native layer is that read.
\<close>

theorem ReadWithTimeout_zero_reads_once:
  assumes "pHandleRead w = Some f"
  shows "(status_at w (length (calls w)) \<noteq> PCAN_ERROR_QRCVEMPTY c \<longrightarrow>
            ReadWithTimeout c p 0 w =
              Some (Return (status_at w (length (calls w)),
                            Some (omsg (driver w (length (calls w)))),
                            Some (ots (driver w (length (calls w)))),
                            err_at w (length (calls w)))
                     (w\<lparr>calls := calls w @ [(f, read_call c p)], nnow := Suc (nnow w)\<rparr>))) \<and>
         (\<forall>y. ReadWithTimeout c p 0 w = Some y \<longrightarrow>
            take (Suc (length (calls w))) (calls (world_of y)) = calls w @ [(f, read_call c p)])"
proof (intro conjI impI allI)
  assume ne: "status_at w (length (calls w)) \<noteq> PCAN_ERROR_QRCVEMPTY c"
  have "\<forall>i<0. keeps_waiting c w 0 i" by simp
  from rwt_first_frame [OF assms this, of p] ne
  have "ReadWithTimeout c p 0 w =
     Some (Return (status_at w (length (calls w)),
                   Some (omsg (driver w (length (calls w)))),
                   Some (ots (driver w (length (calls w)))),
                   err_at w (length (calls w)))
            (w\<lparr>calls := calls w @ replicate (Suc 0) (f, read_call c p),
               nnow := Suc (nnow w) + (if hasEvents w then 0 else 0),
               sleeps := sleeps w @ (if hasEvents w then [] else replicate 0 250000),
               waits := waits w @ (if hasEvents w then replicate 0
                          (recvEvent p, word_of_int (effective_timeout 0)) else [])\<rparr>))"
    by simp
  also have "w\<lparr>calls := calls w @ replicate (Suc 0) (f, read_call c p),
               nnow := Suc (nnow w) + (if hasEvents w then 0 else 0),
               sleeps := sleeps w @ (if hasEvents w then [] else replicate 0 250000),
               waits := waits w @ (if hasEvents w then replicate 0
                          (recvEvent p, word_of_int (effective_timeout 0)) else [])\<rparr> =
             w\<lparr>calls := calls w @ [(f, read_call c p)], nnow := Suc (nnow w)\<rparr>"
    by (rule world.equality) simp_all
  finally show "ReadWithTimeout c p 0 w =
              Some (Return (status_at w (length (calls w)),
                            Some (omsg (driver w (length (calls w)))),
                            Some (ots (driver w (length (calls w)))),
                            err_at w (length (calls w)))
                     (w\<lparr>calls := calls w @ [(f, read_call c p)], nnow := Suc (nnow w)\<rparr>))" .
next
  fix y
  assume "ReadWithTimeout c p 0 w = Some y"
  then have "ReadWithTimeout_loop c p (word_of_int (effective_timeout 0)) (deadline w 0)
       (PCAN_ERROR_UNKNOWN c, None, None, None) (w\<lparr>nnow := Suc (nnow w)\<rparr>) = Some y"
    by (simp add: ReadWithTimeout_unfold)
  from loop_first_read [OF this, of f] assms
  obtain rest where "calls (world_of y) = calls w @ (f, read_call c p) # rest"
    by auto
  then show "take (Suc (length (calls w))) (calls (world_of y)) = calls w @ [(f, read_call c p)]"
    by simp
qed

theorem ReadWithTimeout_zero_reads_once_witness:
  "pHandleRead (loaded (frames_after 0)) = Some ''CAN_Read'' \<and>
   status_at (loaded (frames_after 0)) 0 \<noteq> PCAN_ERROR_QRCVEMPTY pcan_basic \<and>
   ReadWithTimeout pcan_basic usb1 0 (loaded (frames_after 0)) =
     Some (Return (PCAN_ERROR_OK pcan_basic, Some (frame 0), Some (stamp 0), None)
            ((loaded (frames_after 0))\<lparr>calls := [(''CAN_Read'', read_call pcan_basic usb1)],
               nnow := 1\<rparr>)) \<and>
   take 1 (calls (world_of (the (ReadWithTimeout pcan_basic usb1 0 (loaded (frames_after 0)))))) =
     [(''CAN_Read'', read_call pcan_basic usb1)]"
proof -
  let ?w = "loaded (frames_after 0)"
  have h1: "pHandleRead ?w = Some ''CAN_Read''" by simp
  have h2: "status_at ?w 0 \<noteq> PCAN_ERROR_QRCVEMPTY pcan_basic"
    by (simp add: stub_evals)
  have res: "ReadWithTimeout pcan_basic usb1 0 ?w =
     Some (Return (PCAN_ERROR_OK pcan_basic, Some (frame 0), Some (stamp 0), None)
            (?w\<lparr>calls := [(''CAN_Read'', read_call pcan_basic usb1)], nnow := 1\<rparr>))"
    using h2 ReadWithTimeout_zero_reads_once [OF h1, of pcan_basic usb1]
    by (simp add: stub_evals frame_def stamp_def)
  have "take 1 (calls (world_of (the (ReadWithTimeout pcan_basic usb1 0 ?w)))) =
     [(''CAN_Read'', read_call pcan_basic usb1)]"
    by (simp add: res)
  with h1 h2 res show ?thesis by simp
qed


subsection \<open>Read\<close>

text \<open>
  Claim C6. In what \<^verbatim>\<open>Read\<close> returns, and in what \<^verbatim>\<open>ReadWithTimeout\<close> returns,
  the message is \<^verbatim>\<open>nil\<close> if and only if the timestamp is; with any status other
  than the empty queue both a message and a timestamp are returned, with the status of
  the empty queue neither.
\<close>

theorem Read_message_iff_timestamp:
  "(Read c p w = Return (st, m, t, e) w' \<longrightarrow>
      (m = None \<longleftrightarrow> t = None) \<and>
      (st \<noteq> PCAN_ERROR_QRCVEMPTY c \<longrightarrow> m \<noteq> None \<and> t \<noteq> None) \<and>
      (st = PCAN_ERROR_QRCVEMPTY c \<longrightarrow> m = None \<and> t = None)) \<and>
   (ReadWithTimeout c p timeout w = Some (Return (st2, m2, t2, e2) w2) \<longrightarrow>
      (m2 = None \<longleftrightarrow> t2 = None) \<and>
      (st2 \<noteq> PCAN_ERROR_QRCVEMPTY c \<longrightarrow> m2 \<noteq> None \<and> t2 \<noteq> None) \<and>
      (st2 = PCAN_ERROR_QRCVEMPTY c \<longrightarrow> m2 = None \<and> t2 = None))"
proof (rule conjI; rule impI)
  assume "Read c p w = Return (st, m, t, e) w'"
  from Read_status [OF this]
  show "(m = None \<longleftrightarrow> t = None) \<and>
      (st \<noteq> PCAN_ERROR_QRCVEMPTY c \<longrightarrow> m \<noteq> None \<and> t \<noteq> None) \<and>
      (st = PCAN_ERROR_QRCVEMPTY c \<longrightarrow> m = None \<and> t = None)"
    by auto
next
  assume "ReadWithTimeout c p timeout w = Some (Return (st2, m2, t2, e2) w2)"
  then have "ReadWithTimeout_loop c p (word_of_int (effective_timeout timeout)) (deadline w timeout)
       (PCAN_ERROR_UNKNOWN c, None, None, None) (w\<lparr>nnow := Suc (nnow w)\<rparr>) =
     Some (Return (st2, m2, t2, e2) w2)"
    by (simp add: ReadWithTimeout_unfold)
  from loop_status [OF this]
  show "(m2 = None \<longleftrightarrow> t2 = None) \<and>
      (st2 \<noteq> PCAN_ERROR_QRCVEMPTY c \<longrightarrow> m2 \<noteq> None \<and> t2 \<noteq> None) \<and>
      (st2 = PCAN_ERROR_QRCVEMPTY c \<longrightarrow> m2 = None \<and> t2 = None)"
    by auto
qed

text \<open>
  A queue of one frame: \<^verbatim>\<open>Read\<close> and \<^verbatim>\<open>ReadWithTimeout\<close> return the frame with
  its timestamp and the status \<^verbatim>\<open>PCAN_ERROR_OK\<close>; after that read both find the
  queue empty and return neither.
\<close>

theorem Read_message_iff_timestamp_witness:
  "Read pcan_basic usb1 (loaded (queue_of 1)) =
     Return (PCAN_ERROR_OK pcan_basic, Some (frame 0), Some (stamp 0), None)
       ((loaded (queue_of 1))\<lparr>calls := [(''CAN_Read'', read_call pcan_basic usb1)]\<rparr>) \<and>
   ReadWithTimeout pcan_basic usb1 0 (loaded (queue_of 1)) =
     Some (Return (PCAN_ERROR_OK pcan_basic, Some (frame 0), Some (stamp 0), None)
       ((loaded (queue_of 1))\<lparr>calls := [(''CAN_Read'', read_call pcan_basic usb1)],
          nnow := 1\<rparr>)) \<and>
   PCAN_ERROR_OK pcan_basic \<noteq> PCAN_ERROR_QRCVEMPTY pcan_basic \<and>
   Some (frame 0) \<noteq> None \<and> Some (stamp 0) \<noteq> None \<and>
   Read pcan_basic usb1
       ((loaded (queue_of 1))\<lparr>calls := [(''CAN_Read'', read_call pcan_basic usb1)]\<rparr>) =
     Return (PCAN_ERROR_QRCVEMPTY pcan_basic, None, None, None)
       ((loaded (queue_of 1))\<lparr>calls := replicate 2 (''CAN_Read'', read_call pcan_basic usb1)\<rparr>) \<and>
   ReadWithTimeout pcan_basic usb1 0
       ((loaded (queue_of 1))\<lparr>calls := [(''CAN_Read'', read_call pcan_basic usb1)]\<rparr>) =
     Some (Return (PCAN_ERROR_QRCVEMPTY pcan_basic, None, None, None)
       ((loaded (queue_of 1))\<lparr>calls := replicate 2 (''CAN_Read'', read_call pcan_basic usb1),
          nnow := 2\<rparr>))"
proof -
  let ?w = "loaded (queue_of 1)"
  let ?w1 = "?w\<lparr>calls := [(''CAN_Read'', read_call pcan_basic usb1)]\<rparr>"
  let ?w2 = "?w\<lparr>calls := replicate 2 (''CAN_Read'', read_call pcan_basic usb1)\<rparr>"
  have h1: "pHandleRead ?w = Some ''CAN_Read''" by simp
  have h3: "status_at ?w (length (calls ?w)) \<noteq> PCAN_ERROR_QRCVEMPTY pcan_basic"
    by (simp add: pcan_basic_def)
  have h3': "status_at ?w (length (calls ?w) + 0) \<noteq> PCAN_ERROR_QRCVEMPTY pcan_basic"
    by (simp add: pcan_basic_def)
  have k0: "\<forall>i<0. keeps_waiting pcan_basic ?w 0 i" by simp
  have rd: "Read pcan_basic usb1 ?w =
     Return (PCAN_ERROR_OK pcan_basic, Some (frame 0), Some (stamp 0), None) ?w1"
    using Read_frame [OF h1 h3, of usb1] by (simp add: pcan_basic_def)
  have rw: "ReadWithTimeout pcan_basic usb1 0 ?w =
     Some (Return (PCAN_ERROR_OK pcan_basic, Some (frame 0), Some (stamp 0), None)
       (?w\<lparr>calls := [(''CAN_Read'', read_call pcan_basic usb1)], nnow := 1\<rparr>))"
    using rwt_first_frame [OF h1 k0 h3', of usb1] by (simp add: pcan_basic_def)
  have g1: "pHandleRead ?w1 = Some ''CAN_Read''" by simp
  have g2: "\<forall>i<0. keeps_waiting pcan_basic ?w1 0 i" by simp
  have g3: "status_at ?w1 (length (calls ?w1) + 0) = PCAN_ERROR_QRCVEMPTY pcan_basic"
    by (simp add: pcan_basic_def)
  have g3': "status_at ?w1 (length (calls ?w1)) = PCAN_ERROR_QRCVEMPTY pcan_basic"
    by (simp add: pcan_basic_def)
  have g4: "if hasEvents ?w1 then (ucast (fst (waiter ?w1 (length (waits ?w1) + 0))) :: 32 word) = WAIT_TIMEOUT
         else clock_ms ?w1 (Suc (nnow ?w1) + 0) > deadline ?w1 0"
    by (simp add: stub_evals)
  have rd1: "Read pcan_basic usb1 ?w1 =
     Return (PCAN_ERROR_QRCVEMPTY pcan_basic, None, None, None) ?w2"
    using Read_empty [OF g1 g3', of usb1] by (simp add: numeral_2_eq_2)
  have rw1: "ReadWithTimeout pcan_basic usb1 0 ?w1 =
     Some (Return (PCAN_ERROR_QRCVEMPTY pcan_basic, None, None, None)
       (?w\<lparr>calls := replicate 2 (''CAN_Read'', read_call pcan_basic usb1), nnow := 2\<rparr>))"
    using rwt_deadline [OF g1 g2 g3 g4, of usb1]
    by (simp add: queue_of_def no_frame_def syscallErr_def numeral_2_eq_2)
  have ne: "PCAN_ERROR_OK pcan_basic \<noteq> PCAN_ERROR_QRCVEMPTY pcan_basic"
    by (simp add: pcan_basic_def)
  from rd rw rd1 rw1 ne
    Read_message_iff_timestamp [of pcan_basic usb1 ?w "PCAN_ERROR_OK pcan_basic" "Some (frame 0)"
      "Some (stamp 0)" None ?w1 0 "PCAN_ERROR_OK pcan_basic" "Some (frame 0)" "Some (stamp 0)" None
      "?w\<lparr>calls := [(''CAN_Read'', read_call pcan_basic usb1)], nnow := 1\<rparr>"]
  show ?thesis by simp
qed


subsection \<open>ReadFullBuffer\<close>

text \<open>
  Claim C5. In a world where the entry point of the read is loaded and the next \<open>k\<close>
  answers of the native layer are frames, the one after them the empty queue:
  \<^verbatim>\<open>ReadFullBuffer\<close> with a limit \<open>n > 0\<close> returns the first \<open>min n k\<close> messages
  and timestamps in the order of arrival, after \<open>n\<close> reads when \<open>n \<le> k\<close> and
  \<open>k + 1\<close> reads otherwise; with the limit \<open>0\<close> it returns all \<open>k\<close> of them and
  ends with the read that reports the empty queue; and when \<open>n \<le> k\<close>, a call with the
  limit \<open>0\<close> made after the \<open>n\<close> reads of the first call returns the remaining
  \<open>k - n\<close> frames.
\<close>

theorem ReadFullBuffer_drains_in_order:
  assumes "pHandleRead w = Some f"
    and "\<forall>i<k. status_at w (length (calls w) + i) \<noteq> PCAN_ERROR_QRCVEMPTY c"
    and "status_at w (length (calls w) + k) = PCAN_ERROR_QRCVEMPTY c"
  shows "(0 < limit \<longrightarrow>
            ReadFullBuffer c p limit w =
              Some (Return (take (nat limit) (queued_msgs w k),
                            take (nat limit) (queued_timestamps w k),
                            err_at w (length (calls w) + min (nat limit - 1) k))
                     (w\<lparr>calls := calls w @
                          replicate (min (nat limit) (Suc k)) (f, read_call c p)\<rparr>))) \<and>
         ReadFullBuffer c p 0 w =
           Some (Return (queued_msgs w k, queued_timestamps w k, err_at w (length (calls w) + k))
                  (w\<lparr>calls := calls w @ replicate (Suc k) (f, read_call c p)\<rparr>)) \<and>
         (0 < limit \<and> nat limit \<le> k \<longrightarrow>
            ReadFullBuffer c p 0 (w\<lparr>calls := calls w @ replicate (nat limit) (f, read_call c p)\<rparr>) =
              Some (Return (drop (nat limit) (queued_msgs w k),
                            drop (nat limit) (queued_timestamps w k),
                            err_at w (length (calls w) + k))
                     (w\<lparr>calls := calls w @ replicate (Suc k) (f, read_call c p)\<rparr>)))"
proof (intro conjI impI)
  assume pos: "0 < limit"
  show "ReadFullBuffer c p limit w =
              Some (Return (take (nat limit) (queued_msgs w k),
                            take (nat limit) (queued_timestamps w k),
                            err_at w (length (calls w) + min (nat limit - 1) k))
                     (w\<lparr>calls := calls w @
                          replicate (min (nat limit) (Suc k)) (f, read_call c p)\<rparr>))"
  proof (cases "nat limit \<le> k")
    case True
    then have "\<forall>i<nat limit. status_at w (length (calls w) + i) \<noteq> PCAN_ERROR_QRCVEMPTY c"
      using assms(2) by simp
    moreover have "min (nat limit - 1) k = nat limit - 1" "min (nat limit) (Suc k) = nat limit"
      using True by simp_all
    ultimately show ?thesis
      using rfb_limit [OF assms(1) _ pos, of c p] True by (simp only: queued_take)
  next
    case False
    then have "limit = 0 \<or> int k < limit" by linarith
    moreover have "min (nat limit - 1) k = k" "min (nat limit) (Suc k) = Suc k"
      using False by simp_all
    ultimately show ?thesis
      using rfb_all [OF assms, of limit p] False by (simp only: take_all queued_length)
  qed
next
  show "ReadFullBuffer c p 0 w =
           Some (Return (queued_msgs w k, queued_timestamps w k, err_at w (length (calls w) + k))
                  (w\<lparr>calls := calls w @ replicate (Suc k) (f, read_call c p)\<rparr>))"
    by (rule rfb_all [OF assms]) simp
next
  assume "0 < limit \<and> nat limit \<le> k"
  then have le: "nat limit \<le> k" by simp
  let ?l = "nat limit"
  let ?w1 = "w\<lparr>calls := calls w @ replicate ?l (f, read_call c p)\<rparr>"
  have a1: "pHandleRead ?w1 = Some f" using assms(1) by simp
  have a2: "\<forall>i<k - ?l. status_at ?w1 (length (calls ?w1) + i) \<noteq> PCAN_ERROR_QRCVEMPTY c"
    using assms(2) le by (simp add: add.assoc)
  have a3: "status_at ?w1 (length (calls ?w1) + (k - ?l)) = PCAN_ERROR_QRCVEMPTY c"
    using assms(3) le by (simp add: add.assoc)
  have "?w1\<lparr>calls := calls ?w1 @ replicate (Suc (k - ?l)) (f, read_call c p)\<rparr> =
        w\<lparr>calls := calls w @ replicate (Suc k) (f, read_call c p)\<rparr>"
    using le by (simp add: replicate_add [symmetric] del: replicate_Suc replicate.simps)
  with rfb_all [OF a1 a2 a3, of 0 p] le
  show "ReadFullBuffer c p 0 ?w1 =
              Some (Return (drop (nat limit) (queued_msgs w k),
                            drop (nat limit) (queued_timestamps w k),
                            err_at w (length (calls w) + k))
                     (w\<lparr>calls := calls w @ replicate (Suc k) (f, read_call c p)\<rparr>))"
    by (simp add: queued_drop [where x = "(f, read_call c p)"] add.assoc)
qed

text \<open>
  A queue of five frames: the limit \<open>3\<close> returns the first three, the limit
  \<open>0\<close> all five, and a call made after the first three reads the last two.
\<close>

theorem ReadFullBuffer_drains_in_order_witness:
  "pHandleRead (loaded (queue_of 5)) = Some ''CAN_Read'' \<and>
   map (status_at (loaded (queue_of 5))) [0, 1, 2, 3, 4, 5] = [0, 0, 0, 0, 0, 0x20] \<and>
   PCAN_ERROR_QRCVEMPTY pcan_basic = 0x20 \<and>
   ReadFullBuffer pcan_basic usb1 3 (loaded (queue_of 5)) =
     Some (Return ([frame 0, frame 1, frame 2], [stamp 0, stamp 1, stamp 2], None)
            ((loaded (queue_of 5))\<lparr>calls := replicate 3 (''CAN_Read'', read_call pcan_basic usb1)\<rparr>)) \<and>
   ReadFullBuffer pcan_basic usb1 0 (loaded (queue_of 5)) =
     Some (Return ([frame 0, frame 1, frame 2, frame 3, frame 4],
                   [stamp 0, stamp 1, stamp 2, stamp 3, stamp 4], None)
            ((loaded (queue_of 5))\<lparr>calls := replicate 6 (''CAN_Read'', read_call pcan_basic usb1)\<rparr>)) \<and>
   ReadFullBuffer pcan_basic usb1 0
       ((loaded (queue_of 5))\<lparr>calls := replicate 3 (''CAN_Read'', read_call pcan_basic usb1)\<rparr>) =
     Some (Return ([frame 3, frame 4], [stamp 3, stamp 4], None)
            ((loaded (queue_of 5))\<lparr>calls := replicate 6 (''CAN_Read'', read_call pcan_basic usb1)\<rparr>))"
proof -
  let ?w = "loaded (queue_of 5)"
  have h1: "pHandleRead ?w = Some ''CAN_Read''" by simp
  have h2: "\<forall>i<5. status_at ?w (length (calls ?w) + i) \<noteq> PCAN_ERROR_QRCVEMPTY pcan_basic"
    by (simp add: pcan_basic_def)
  have h3: "status_at ?w (length (calls ?w) + 5) = PCAN_ERROR_QRCVEMPTY pcan_basic"
    by (simp add: pcan_basic_def)
  have q: "queued_msgs ?w 5 = [frame 0, frame 1, frame 2, frame 3, frame 4]"
    "queued_timestamps ?w 5 = [stamp 0, stamp 1, stamp 2, stamp 3, stamp 4]"
    by (simp_all add: queued_msgs_def queued_timestamps_def upt_evals)
  have st: "map (status_at ?w) [0, 1, 2, 3, 4, 5] = [0, 0, 0, 0, 0, 0x20]"
    by simp
  have c: "PCAN_ERROR_QRCVEMPTY pcan_basic = 0x20"
    by (simp add: pcan_basic_def)
  have res: "ReadFullBuffer pcan_basic usb1 3 ?w =
     Some (Return ([frame 0, frame 1, frame 2], [stamp 0, stamp 1, stamp 2], None)
            (?w\<lparr>calls := replicate 3 (''CAN_Read'', read_call pcan_basic usb1)\<rparr>)) \<and>
   ReadFullBuffer pcan_basic usb1 0 ?w =
     Some (Return ([frame 0, frame 1, frame 2, frame 3, frame 4],
                   [stamp 0, stamp 1, stamp 2, stamp 3, stamp 4], None)
            (?w\<lparr>calls := replicate 6 (''CAN_Read'', read_call pcan_basic usb1)\<rparr>)) \<and>
   ReadFullBuffer pcan_basic usb1 0
       (?w\<lparr>calls := replicate 3 (''CAN_Read'', read_call pcan_basic usb1)\<rparr>) =
     Some (Return ([frame 3, frame 4], [stamp 3, stamp 4], None)
            (?w\<lparr>calls := replicate 6 (''CAN_Read'', read_call pcan_basic usb1)\<rparr>))"
    using ReadFullBuffer_drains_in_order [OF h1 h2 h3, of 3 usb1]
    by (simp add: q)
  from h1 st c res show ?thesis by simp
qed

text \<open>
  Claim C9. Whatever status other than the empty queue a read of
  \<^verbatim>\<open>ReadFullBuffer\<close> reports, the message and the timestamp of that read are
  appended, and the loop goes on with the next read unless the limit on the number of
  messages is reached, in which case the two lists are returned with the platform error
  of that read; the status is not looked at again and is no part of what is returned.
  With the limit \<open>0\<close> and a native layer that never reports the empty queue the call
  never returns.
\<close>

theorem ReadFullBuffer_ignores_status:
  assumes "pHandleRead w = Some f"
    and "status_at w (length (calls w)) \<noteq> PCAN_ERROR_QRCVEMPTY c"
  shows "ReadFullBuffer_loop c p limit msgs timestamps w =
           (if limit \<noteq> 0 \<and> limit \<le> int (Suc (length msgs)) then
              Some (Return (msgs @ [omsg (driver w (length (calls w)))],
                            timestamps @ [ots (driver w (length (calls w)))],
                            err_at w (length (calls w)))
                     (w\<lparr>calls := calls w @ [(f, read_call c p)]\<rparr>))
            else ReadFullBuffer_loop c p limit (msgs @ [omsg (driver w (length (calls w)))])
                   (timestamps @ [ots (driver w (length (calls w)))])
                   (w\<lparr>calls := calls w @ [(f, read_call c p)]\<rparr>)) \<and>
         ((\<forall>i. status_at w (length (calls w) + i) \<noteq> PCAN_ERROR_QRCVEMPTY c) \<longrightarrow>
            ReadFullBuffer c p 0 w = None)"
proof (intro conjI impI)
  show "ReadFullBuffer_loop c p limit msgs timestamps w =
           (if limit \<noteq> 0 \<and> limit \<le> int (Suc (length msgs)) then
              Some (Return (msgs @ [omsg (driver w (length (calls w)))],
                            timestamps @ [ots (driver w (length (calls w)))],
                            err_at w (length (calls w)))
                     (w\<lparr>calls := calls w @ [(f, read_call c p)]\<rparr>))
            else ReadFullBuffer_loop c p limit (msgs @ [omsg (driver w (length (calls w)))])
                   (timestamps @ [ots (driver w (length (calls w)))])
                   (w\<lparr>calls := calls w @ [(f, read_call c p)]\<rparr>))"
    by (rule rfb_step [OF assms])
next
  assume all: "\<forall>i. status_at w (length (calls w) + i) \<noteq> PCAN_ERROR_QRCVEMPTY c"
  show "ReadFullBuffer c p 0 w = None"
  proof (cases "ReadFullBuffer c p 0 w")
    case None
    then show ?thesis .
  next
    case (Some y)
    then have "ReadFullBuffer_loop c p 0 [] [] w = Some y"
      by (simp add: ReadFullBuffer_def)
    from rfb_diverges [OF this] assms(1) all show ?thesis by simp
  qed
qed

text \<open>
  A native layer that answers every read with the status \<open>0x1400\<close>: the limit
  \<open>2\<close> returns the frames of the first two reads, the limit \<open>0\<close> does not
  return.
\<close>

theorem ReadFullBuffer_ignores_status_witness:
  "pHandleRead (loaded hardware_fault) = Some ''CAN_Read'' \<and>
   status_at (loaded hardware_fault) 0 = 0x1400 \<and>
   status_at (loaded hardware_fault) 1 = 0x1400 \<and>
   PCAN_ERROR_QRCVEMPTY pcan_basic = 0x20 \<and>
   ReadFullBuffer pcan_basic usb1 2 (loaded hardware_fault) =
     Some (Return ([frame 0, frame 1], [stamp 0, stamp 1], None)
            ((loaded hardware_fault)\<lparr>calls := replicate 2 (''CAN_Read'', read_call pcan_basic usb1)\<rparr>)) \<and>
   ReadFullBuffer pcan_basic usb1 0 (loaded hardware_fault) = None"
proof -
  let ?w = "loaded hardware_fault"
  let ?w1 = "?w\<lparr>calls := [(''CAN_Read'', read_call pcan_basic usb1)]\<rparr>"
  have st: "status_at ?w i = 0x1400" for i
    by (simp add: hardware_fault_def stub_evals)
  have c: "PCAN_ERROR_QRCVEMPTY pcan_basic = 0x20"
    by (simp add: pcan_basic_def)
  have h1: "pHandleRead ?w = Some ''CAN_Read''" by simp
  have h2: "status_at ?w (length (calls ?w)) \<noteq> PCAN_ERROR_QRCVEMPTY pcan_basic"
    by (simp add: st c)
  have g1: "pHandleRead ?w1 = Some ''CAN_Read''" by simp
  have g2: "status_at ?w1 (length (calls ?w1)) \<noteq> PCAN_ERROR_QRCVEMPTY pcan_basic"
    by (simp add: st c)
  have all: "\<forall>i. status_at ?w (length (calls ?w) + i) \<noteq> PCAN_ERROR_QRCVEMPTY pcan_basic"
    by (simp add: st c)
  have e: "err_at ?w i = None" "omsg (hardware_fault i) = frame i" "ots (hardware_fault i) = stamp i" for i
    by (simp_all add: hardware_fault_def stub_evals)
  have r2: "ReadFullBuffer pcan_basic usb1 2 ?w =
     Some (Return ([frame 0, frame 1], [stamp 0, stamp 1], None)
            (?w\<lparr>calls := replicate 2 (''CAN_Read'', read_call pcan_basic usb1)\<rparr>))"
    using ReadFullBuffer_ignores_status [OF h1 h2, of usb1 2 "[]" "[]"]
      ReadFullBuffer_ignores_status [OF g1 g2, of usb1 2 "[frame 0]" "[stamp 0]"]
    by (simp add: ReadFullBuffer_def e numeral_2_eq_2)
  have r0: "ReadFullBuffer pcan_basic usb1 0 ?w = None"
    using ReadFullBuffer_ignores_status [OF h1 h2, of usb1 2 "[]" "[]"] all by simp
  from h1 st c r2 r0 show ?thesis by simp
qed

text \<open>
  Claim C10. With a negative limit, \<^verbatim>\<open>ReadFullBuffer\<close> returns after its first read
  when that read yields a frame, with that one message and timestamp.
\<close>

theorem ReadFullBuffer_negative_limit:
  assumes "limit < 0" and "pHandleRead w = Some f"
    and "status_at w (length (calls w)) \<noteq> PCAN_ERROR_QRCVEMPTY c"
  shows "ReadFullBuffer c p limit w =
     Some (Return ([omsg (driver w (length (calls w)))], [ots (driver w (length (calls w)))],
                   err_at w (length (calls w)))
            (w\<lparr>calls := calls w @ [(f, read_call c p)]\<rparr>))"
  using assms(1) by (simp add: ReadFullBuffer_def rfb_step [OF assms(2,3)])

theorem ReadFullBuffer_negative_limit_witness:
  "(- 1 :: int) < 0 \<and>
   pHandleRead (loaded (queue_of 5)) = Some ''CAN_Read'' \<and>
   status_at (loaded (queue_of 5)) 0 = PCAN_ERROR_OK pcan_basic \<and>
   ReadFullBuffer pcan_basic usb1 (- 1) (loaded (queue_of 5)) =
     Some (Return ([frame 0], [stamp 0], None)
            ((loaded (queue_of 5))\<lparr>calls := [(''CAN_Read'', read_call pcan_basic usb1)]\<rparr>))"
proof -
  let ?w = "loaded (queue_of 5)"
  have h0: "(- 1 :: int) < 0" by simp
  have h1: "pHandleRead ?w = Some ''CAN_Read''" by simp
  have h2: "status_at ?w (length (calls ?w)) \<noteq> PCAN_ERROR_QRCVEMPTY pcan_basic"
    by (simp add: pcan_basic_def)
  have s0: "status_at ?w 0 = PCAN_ERROR_OK pcan_basic"
    by (simp add: pcan_basic_def)
  from h1 s0 ReadFullBuffer_negative_limit [OF h0 h1 h2, of usb1]
  show ?thesis by simp
qed


subsection \<open>StartTrace\<close>

text \<open>
  Claim C7, as amended. For a path longer than \<^verbatim>\<open>MAX_LENGHT_STRING_BUFFER\<close> and a
  file size within its limit, in a world where the entry point for setting values is
  loaded: \<^verbatim>\<open>StartTrace\<close> calls the native layer to set the trace configuration and,
  if that succeeds and the file size is not zero, to set the trace size, and makes no
  other call, so that the path is never handed to the native layer. If these calls
  succeed, it returns \<^verbatim>\<open>PCAN_ERROR_UNKNOWN\<close> and the error about the length of the
  path; otherwise the status and error of the call that failed.
\<close>

theorem StartTrace_long_path:
  assumes "length filePath > MAX_LENGHT_STRING_BUFFER c"
    and "pHandleSetValue w = Some f"
    and "maxFileSize \<le> MAX_TRACE_FILE_SIZE_ACCEPTED c"
  shows "calls (world_of (StartTrace c p filePath maxFileSize w)) =
           calls w @
           (f, set_value_call p (PCAN_TRACE_CONFIGURE c)
                 (PtrU32 (trace_configuration c maxFileSize)) 4) #
           (if 0 < maxFileSize \<and> succeeded c w (length (calls w)) then
              [(f, set_value_call p (PCAN_TRACE_SIZE c) (PtrU32 maxFileSize) 4)]
            else []) \<and>
         result_of (StartTrace c p filePath maxFileSize w) =
           Some (if succeeded c w (length (calls w)) then
                   (if 0 < maxFileSize then
                      (if succeeded c w (Suc (length (calls w))) then
                         (PCAN_ERROR_UNKNOWN c,
                          Some (Errorf ''filepath exceeds max length of %v''
                                  (MAX_LENGHT_STRING_BUFFER c)))
                       else (status_at w (Suc (length (calls w))),
                             err_at w (Suc (length (calls w)))))
                    else (PCAN_ERROR_UNKNOWN c,
                          Some (Errorf ''filepath exceeds max length of %v''
                                  (MAX_LENGHT_STRING_BUFFER c))))
                 else (status_at w (length (calls w)), err_at w (length (calls w))))"
  by (simp add: StartTrace_long [OF assms] Let_def)

text \<open>
  A path of 257 characters with the file size \<open>10\<close>: two calls that set values,
  then the error about the length of the path.
\<close>

theorem StartTrace_long_path_witness:
  "length (replicate 257 (CHR ''a'')) > MAX_LENGHT_STRING_BUFFER pcan_basic \<and>
   pHandleSetValue (loaded (queue_of 5)) = Some ''CAN_SetValue'' \<and>
   (10 :: 32 word) \<le> MAX_TRACE_FILE_SIZE_ACCEPTED pcan_basic \<and>
   calls (world_of (StartTrace pcan_basic usb1 (replicate 257 (CHR ''a'')) 10 (loaded (queue_of 5)))) =
     [(''CAN_SetValue'', [Val 81, Val 22, PtrU32 135, Val 4]),
      (''CAN_SetValue'', [Val 81, Val 21, PtrU32 10, Val 4])] \<and>
   result_of (StartTrace pcan_basic usb1 (replicate 257 (CHR ''a'')) 10 (loaded (queue_of 5))) =
     Some (PCAN_ERROR_UNKNOWN pcan_basic,
           Some (Errorf ''filepath exceeds max length of %v'' 256))"
proof -
  let ?w = "loaded (queue_of 5)"
  have h1: "length (replicate 257 (CHR ''a'')) > MAX_LENGHT_STRING_BUFFER pcan_basic"
    by (simp add: pcan_basic_def)
  have h2: "pHandleSetValue ?w = Some ''CAN_SetValue''" by simp
  have h3: "(10 :: 32 word) \<le> MAX_TRACE_FILE_SIZE_ACCEPTED pcan_basic"
    by (simp add: pcan_basic_def)
  have ok: "succeeded pcan_basic ?w 0" "succeeded pcan_basic ?w (Suc 0)"
    by (simp_all add: succeeded_def pcan_basic_def)
  have args: "set_value_call usb1 (PCAN_TRACE_CONFIGURE pcan_basic)
        (PtrU32 (trace_configuration pcan_basic 10)) 4 = [Val 81, Val 22, PtrU32 135, Val 4]"
    "set_value_call usb1 (PCAN_TRACE_SIZE pcan_basic) (PtrU32 10) 4 =
       [Val 81, Val 21, PtrU32 10, Val 4]"
    by (simp_all add: set_value_call_def trace_configuration_def pcan_basic_def usb1_def)
  from h1 h2 h3 StartTrace_long_path [OF h1 h2 h3, of usb1] show ?thesis
    by (simp add: ok args) (simp add: pcan_basic_def)
qed

text \<open>
  Claim C7 as it was stated fails: with the file size \<open>0\<close> and a path of 257
  characters the native layer, not called before, has been called once when
  \<^verbatim>\<open>StartTrace\<close> returns the error about the length of the path.
\<close>

theorem StartTrace_long_path_counterexample:
  "length (replicate 257 (CHR ''a'')) > MAX_LENGHT_STRING_BUFFER pcan_basic \<and>
   calls (loaded (queue_of 5)) = [] \<and>
   calls (world_of (StartTrace pcan_basic usb1 (replicate 257 (CHR ''a'')) 0 (loaded (queue_of 5)))) =
     [(''CAN_SetValue'', [Val 81, Val 22, PtrU32 134, Val 4])] \<and>
   result_of (StartTrace pcan_basic usb1 (replicate 257 (CHR ''a'')) 0 (loaded (queue_of 5))) =
     Some (PCAN_ERROR_UNKNOWN pcan_basic,
           Some (Errorf ''filepath exceeds max length of %v'' 256))"
proof -
  let ?w = "loaded (queue_of 5)"
  have h1: "length (replicate 257 (CHR ''a'')) > MAX_LENGHT_STRING_BUFFER pcan_basic"
    by (simp add: pcan_basic_def)
  have h2: "pHandleSetValue ?w = Some ''CAN_SetValue''" by simp
  have h3: "(0 :: 32 word) \<le> MAX_TRACE_FILE_SIZE_ACCEPTED pcan_basic"
    by (simp add: pcan_basic_def)
  have ok: "succeeded pcan_basic ?w 0"
    by (simp_all add: succeeded_def pcan_basic_def)
  have args: "set_value_call usb1 (PCAN_TRACE_CONFIGURE pcan_basic)
        (PtrU32 (trace_configuration pcan_basic 0)) 4 = [Val 81, Val 22, PtrU32 134, Val 4]"
    by (simp_all add: set_value_call_def trace_configuration_def pcan_basic_def usb1_def)
  from h1 StartTrace_long [OF h1 h2 h3, of usb1] show ?thesis
    by (simp add: ok args Let_def) (simp add: pcan_basic_def)
qed


subsection \<open>UnloadAPI\<close>

text \<open>
  Claim C8, as amended. In the world \<^verbatim>\<open>UnloadAPI\<close> leaves, every method of a channel
  that forwards to the native layer panics on the \<^verbatim>\<open>nil\<close> entry point: it returns
  nothing and calls nothing. \<^verbatim>\<open>ReadWithTimeout\<close> has read the clock once by then.
\<close>

theorem operations_after_UnloadAPI:
  "Read c p (after_unload w) = Panic (after_unload w) \<and>
   Write p msg (after_unload w) = Panic (after_unload w) \<and>
   Uninitialize p (after_unload w) = Panic (after_unload w) \<and>
   Reset p (after_unload w) = Panic (after_unload w) \<and>
   GetStatus p (after_unload w) = Panic (after_unload w) \<and>
   GetValue p param buffer bufferSize (after_unload w) = Panic (after_unload w) \<and>
   SetValue p param buffer bufferSize (after_unload w) = Panic (after_unload w) \<and>
   SetParameter p param val (after_unload w) = Panic (after_unload w) \<and>
   StopTrace c p (after_unload w) = Panic (after_unload w) \<and>
   ReadWithTimeout c p timeout (after_unload w) =
     Some (Panic ((after_unload w)\<lparr>nnow := Suc (nnow (after_unload w))\<rparr>)) \<and>
   ReadFullBuffer c p limit (after_unload w) = Some (Panic (after_unload w)) \<and>
   calls (after_unload w) = calls w"
proof -
  have "ReadWithTimeout c p timeout (after_unload w) =
     Some (Panic ((after_unload w)\<lparr>nnow := Suc (nnow (after_unload w))\<rparr>))"
    by (simp add: ReadWithTimeout_unfold, subst ReadWithTimeout_loop.simps)
       (simp add: Read_def Call_def)
  moreover have "ReadFullBuffer c p limit (after_unload w) = Some (Panic (after_unload w))"
    by (simp add: ReadFullBuffer_def, subst ReadFullBuffer_loop.simps)
       (simp add: Read_unloaded)
  moreover have "calls (after_unload w) = calls w"
    by (simp add: after_unload_def UnloadAPI_def Let_def split: option.splits)
  ultimately show ?thesis
    by (simp add: Read_unloaded SetValue_unloaded SetParameter_def StopTrace_def Write_def
          Uninitialize_def Reset_def GetStatus_def GetValue_def call_status_def Call_def)
qed

text \<open>
  Claim C8 as it was stated fails: after \<^verbatim>\<open>UnloadAPI\<close> in a world where the library
  was loaded, \<^verbatim>\<open>Read\<close> panics and returns no status and no error.
\<close>

theorem Read_after_UnloadAPI_counterexample:
  "Read pcan_basic usb1 (after_unload (loaded (queue_of 1))) =
     Panic ((loaded (queue_of 1))\<lparr>pHandleInitialize := None, pHandleInitializeFD := None,
                  pHandleUninitialize := None, pHandleReset := None,
                  pHandleGetStatus := None, pHandleRead := None, pHandleReadFD := None,
                  pHandleWrite := None, pHandleWriteFD := None,
                  pHandleFilterMessages := None, pHandleGetValue := None,
                  pHandleSetValue := None, pHandleGetErrorText := None,
                  pHandleLookUpChannel := None, apiLoaded := False\<rparr>) \<and>
   result_of (Read pcan_basic usb1 (after_unload (loaded (queue_of 1)))) = None"
proof -
  have "after_unload (loaded (queue_of 1)) =
     (loaded (queue_of 1))\<lparr>pHandleInitialize := None, pHandleInitializeFD := None,
                  pHandleUninitialize := None, pHandleReset := None,
                  pHandleGetStatus := None, pHandleRead := None, pHandleReadFD := None,
                  pHandleWrite := None, pHandleWriteFD := None,
                  pHandleFilterMessages := None, pHandleGetValue := None,
                  pHandleSetValue := None, pHandleGetErrorText := None,
                  pHandleLookUpChannel := None, apiLoaded := False\<rparr>"
    by (simp add: after_unload_def UnloadAPI_def Let_def loaded_def)
  with Read_unloaded [of pcan_basic usb1 "loaded (queue_of 1)"] show ?thesis
    by simp
qed

end
